theory Spec2Isabelle
  imports Main "HOL-Library.Word"
begin

section \<open>Guitar chart loaders: the note-classification engines\<close>

text \<open>
  A shallow embedding of the two note-classification engines of the repository:
  \<^item> the text-chart engine, \<^verbatim>\<open>src/NotesLoaderChart.cpp\<close> (\<^verbatim>\<open>addNote\<close>,
    \<^verbatim>\<open>getLineWords\<close>, \<^verbatim>\<open>parseNoteSection\<close>);
  \<^item> the MIDI engine, \<^verbatim>\<open>src/NotesLoaderMID.cpp\<close> (\<^verbatim>\<open>translateSysex\<close>,
    \<^verbatim>\<open>getNewGuitarData\<close>, \<^verbatim>\<open>getNoteRangeForDifficulty\<close>, \<^verbatim>\<open>placeNote\<close>,
    \<^verbatim>\<open>checkHOPOConditions\<close>, \<^verbatim>\<open>addGHRBNote\<close>, \<^verbatim>\<open>getGHRBNotesFromTrack\<close>).

  The C++ \<^verbatim>\<open>int\<close> is modelled as \<^typ>\<open>int\<close>: ticks, lengths, rows and lane numbers of
  a chart stay far below \<open>2^31\<close>, signed overflow is undefined behaviour in C++, and no
  property below depends on it. Integer division of C++ truncates towards zero and is
  written out as \<open>c_div\<close>. Reads outside a vector, an array or a payload are undefined
  behaviour in the source; the model returns \<open>None\<close> there.
\<close>

subsection \<open>Integer helpers of the source language\<close>

definition c_div :: "int \<Rightarrow> int \<Rightarrow> int" where
  \<comment> \<open>C++ \<^verbatim>\<open>a / b\<close> on \<^verbatim>\<open>int\<close>: the quotient truncated towards zero.\<close>
  "c_div a b = sgn a * sgn b * (\<bar>a\<bar> div \<bar>b\<bar>)"

definition c_mod :: "int \<Rightarrow> int \<Rightarrow> int" where
  \<comment> \<open>C++ \<^verbatim>\<open>a % b\<close> on \<^verbatim>\<open>int\<close>: the remainder with the sign of the dividend.\<close>
  "c_mod a b = a - b * c_div a b"

subsection \<open>The timeline: tap notes and note data\<close>

text \<open>
  The note types the two loaders name. \<^verbatim>\<open>TAP_EMPTY\<close>, \<^verbatim>\<open>TAP_ORIGINAL_TAP\<close>,
  \<^verbatim>\<open>TAP_ORIGINAL_HOLD_HEAD\<close>, \<^verbatim>\<open>TAP_ORIGINAL_GEM\<close>, \<^verbatim>\<open>TAP_ORIGINAL_GEM_HOLD\<close>,
  \<^verbatim>\<open>TAP_ORIGINAL_HOPO\<close> and \<^verbatim>\<open>TAP_ORIGINAL_HOPO_HOLD\<close> are the seven constants of the
  source; a tap note carries its type and its duration in rows.
\<close>

datatype TapNoteType =
    TapNoteType_Empty
  | TapNoteType_Tap
  | TapNoteType_HoldHead
  | TapNoteType_Gem
  | TapNoteType_GemHold
  | TapNoteType_HOPO
  | TapNoteType_HOPOHold

record TapNote =
  tnType :: TapNoteType
  iDuration :: int

definition TAP_EMPTY :: TapNote where
  "TAP_EMPTY = \<lparr>tnType = TapNoteType_Empty, iDuration = 0\<rparr>"

definition TAP_ORIGINAL_TAP :: TapNote where
  "TAP_ORIGINAL_TAP = \<lparr>tnType = TapNoteType_Tap, iDuration = 0\<rparr>"

definition TAP_ORIGINAL_HOLD_HEAD :: TapNote where
  "TAP_ORIGINAL_HOLD_HEAD = \<lparr>tnType = TapNoteType_HoldHead, iDuration = 0\<rparr>"

definition TAP_ORIGINAL_GEM :: TapNote where
  "TAP_ORIGINAL_GEM = \<lparr>tnType = TapNoteType_Gem, iDuration = 0\<rparr>"

definition TAP_ORIGINAL_GEM_HOLD :: TapNote where
  "TAP_ORIGINAL_GEM_HOLD = \<lparr>tnType = TapNoteType_GemHold, iDuration = 0\<rparr>"

definition TAP_ORIGINAL_HOPO :: TapNote where
  "TAP_ORIGINAL_HOPO = \<lparr>tnType = TapNoteType_HOPO, iDuration = 0\<rparr>"

definition TAP_ORIGINAL_HOPO_HOLD :: TapNote where
  "TAP_ORIGINAL_HOPO_HOLD = \<lparr>tnType = TapNoteType_HOPOHold, iDuration = 0\<rparr>"

text \<open>
  Modelled from the spec: the class \<^verbatim>\<open>NoteData\<close> (\<^verbatim>\<open>NoteData.h\<close>, \<^verbatim>\<open>NoteData.cpp\<close>) is
  not under src/. The spec gives the sink the loaders need: "set single-event-at-row,
  add-held-event-spanning-rows, query-event-at-row, with events carrying a duration and
  a category tag", and a cleared or never written position reads as empty. So the
  timeline is a store from (track, row) to the tap note there, \<^verbatim>\<open>TAP_EMPTY\<close> where
  nothing is stored; a held event is stored at its start row with the duration
  \<open>end - start\<close>.
\<close>

type_synonym NoteData = "int \<times> int \<Rightarrow> TapNote"

definition emptyNoteData :: NoteData where
  "emptyNoteData = (\<lambda>_. TAP_EMPTY)"

definition GetTapNote :: "NoteData \<Rightarrow> int \<Rightarrow> int \<Rightarrow> TapNote" where
  "GetTapNote notes track row = notes (track, row)"

definition SetTapNote :: "NoteData \<Rightarrow> int \<Rightarrow> int \<Rightarrow> TapNote \<Rightarrow> NoteData" where
  "SetTapNote notes track row tn = notes((track, row) := tn)"

definition AddHoldNote :: "NoteData \<Rightarrow> int \<Rightarrow> int \<Rightarrow> int \<Rightarrow> TapNote \<Rightarrow> NoteData" where
  "AddHoldNote notes track iStartRow iEndRow tn =
     notes((track, iStartRow) := tn\<lparr>iDuration := iEndRow - iStartRow\<rparr>)"

text \<open>
  Modelled from the spec: \<^verbatim>\<open>BeatToNoteRow\<close> (\<^verbatim>\<open>NoteTypes.h\<close>) is not under src/. The
  spec says it "converts a fractional beat position to the external timeline's discrete
  row unit"; the loaders' own comments and constants give 48 rows per beat ("Stepmania
  uses 192 ticks per MEASURE as a maximum", \<^verbatim>\<open>TickcountSegment(0, 48)\<close>). Every call of
  the loaders has the shape \<^verbatim>\<open>BeatToNoteRow((float)tick/resolution)\<close>, so the engines
  below take the conversion as a parameter \<open>btr\<close>, called as \<open>btr tick resolution\<close>, and
  the properties that hold for every conversion are proved for every \<open>btr\<close>. The
  concrete conversion is the row nearest to \<open>48 * tick / resolution\<close>, a tie going to the
  even row (the rounding of \<^verbatim>\<open>lrintf\<close>), computed on exact fractions; it is meant for
  \<open>resolution > 0\<close>, the invariant of the spec.
\<close>

definition BeatToNoteRow :: "int \<Rightarrow> int \<Rightarrow> int" where
  "BeatToNoteRow tick resolution =
     (let n = 48 * tick; f = n div resolution; r = n mod resolution
      in if 2 * r < resolution then f
         else if resolution < 2 * r then f + 1
         else if even f then f else f + 1)"

subsection \<open>The emitters of the two engines\<close>

text \<open>
  \<^verbatim>\<open>addNote\<close> of \<^verbatim>\<open>NotesLoaderChart.cpp\<close>: the note category is 1 (tap or hold),
  2 (gem or gem hold) or 3 (HOPO or HOPO hold); any other category returns before the
  note data is touched.
\<close>

definition addNote :: "NoteData \<Rightarrow> int \<Rightarrow> int \<Rightarrow> int \<Rightarrow> int \<Rightarrow> NoteData" where
  "addNote notes track start end noteCategory =
     (if noteCategory = 1 then
        (if end > start then AddHoldNote notes track start end TAP_ORIGINAL_HOLD_HEAD
         else SetTapNote notes track start TAP_ORIGINAL_TAP)
      else if noteCategory = 2 then
        (if end > start then AddHoldNote notes track start end TAP_ORIGINAL_GEM_HOLD
         else SetTapNote notes track start TAP_ORIGINAL_GEM)
      else if noteCategory = 3 then
        (if end > start then AddHoldNote notes track start end TAP_ORIGINAL_HOPO_HOLD
         else SetTapNote notes track start TAP_ORIGINAL_HOPO)
      else notes)"

text \<open>
  \<^verbatim>\<open>placeNote\<close> of \<^verbatim>\<open>NotesLoaderMID.cpp\<close>: the same table, but an invalid category
  selects \<^verbatim>\<open>TAP_EMPTY\<close> for both kinds and still writes.
\<close>

definition placeNote :: "NoteData \<Rightarrow> int \<Rightarrow> int \<Rightarrow> int \<Rightarrow> int \<Rightarrow> NoteData" where
  "placeNote notes track start end noteCategory =
     (let singleTapKind =
            (if noteCategory = 1 then TAP_ORIGINAL_TAP
             else if noteCategory = 2 then TAP_ORIGINAL_GEM
             else if noteCategory = 3 then TAP_ORIGINAL_HOPO
             else TAP_EMPTY);
          heldTapKind =
            (if noteCategory = 1 then TAP_ORIGINAL_HOLD_HEAD
             else if noteCategory = 2 then TAP_ORIGINAL_GEM_HOLD
             else if noteCategory = 3 then TAP_ORIGINAL_HOPO_HOLD
             else TAP_EMPTY)
      in if end > start then AddHoldNote notes track start end heldTapKind
         else SetTapNote notes track start singleTapKind)"

text \<open>
  The event a category leaves at the start row, as both emitters select it: the held
  kind with the duration \<open>end - start\<close> when the end row exceeds the start row, the
  single kind otherwise (the "categorize(kind, duration)" of the spec's design notes).
  The predicates name the three categories of an event and its held variants.
\<close>

definition categoryEvent :: "int \<Rightarrow> int \<Rightarrow> int \<Rightarrow> TapNote" where
  "categoryEvent noteCategory start end =
     (if noteCategory = 1 then
        (if end > start then TAP_ORIGINAL_HOLD_HEAD\<lparr>iDuration := end - start\<rparr>
         else TAP_ORIGINAL_TAP)
      else if noteCategory = 2 then
        (if end > start then TAP_ORIGINAL_GEM_HOLD\<lparr>iDuration := end - start\<rparr>
         else TAP_ORIGINAL_GEM)
      else if noteCategory = 3 then
        (if end > start then TAP_ORIGINAL_HOPO_HOLD\<lparr>iDuration := end - start\<rparr>
         else TAP_ORIGINAL_HOPO)
      else
        (if end > start then TAP_EMPTY\<lparr>iDuration := end - start\<rparr> else TAP_EMPTY))"

definition isTap :: "TapNote \<Rightarrow> bool" where
  "isTap tn = (tnType tn = TapNoteType_Tap \<or> tnType tn = TapNoteType_HoldHead)"

definition isStrum :: "TapNote \<Rightarrow> bool" where
  "isStrum tn = (tnType tn = TapNoteType_Gem \<or> tnType tn = TapNoteType_GemHold)"

definition isHOPO :: "TapNote \<Rightarrow> bool" where
  "isHOPO tn = (tnType tn = TapNoteType_HOPO \<or> tnType tn = TapNoteType_HOPOHold)"

definition isHeld :: "TapNote \<Rightarrow> bool" where
  "isHeld tn = (tnType tn = TapNoteType_HoldHead \<or> tnType tn = TapNoteType_GemHold
                \<or> tnType tn = TapNoteType_HOPOHold)"

subsection \<open>The text-chart engine: reading a line\<close>

text \<open>
  \<^verbatim>\<open>getLineWords\<close>: one line of the stream, its tabs removed, cut into words at white
  space (the \<^verbatim>\<open>istream_iterator\<close> of the source skips the characters
  of \<^verbatim>\<open>isspace\<close>). The stream is the list of its remaining lines.
\<close>

definition isspace_c :: "char \<Rightarrow> bool" where
  "isspace_c c = (c = CHR '' '' \<or> c = CHR 0x09 \<or> c = CHR 0x0A \<or> c = CHR 0x0B
                  \<or> c = CHR 0x0C \<or> c = CHR 0x0D)"

fun splitWords :: "string \<Rightarrow> string \<Rightarrow> string list" where
  "splitWords [] cur = (if cur = [] then [] else [rev cur])"
| "splitWords (c # cs) cur =
     (if isspace_c c then (if cur = [] then splitWords cs [] else rev cur # splitWords cs [])
      else splitWords cs (c # cur))"

definition getLineWords :: "string \<Rightarrow> string list" where
  "getLineWords line = splitWords (filter (\<lambda>c. c \<noteq> CHR 0x09) line) []"

text \<open>\<^verbatim>\<open>atoi\<close>: optional white space, an optional sign, then the leading decimal digits.\<close>

definition isdigit_c :: "char \<Rightarrow> bool" where
  "isdigit_c c = (48 \<le> (of_char c :: nat) \<and> (of_char c :: nat) \<le> 57)"

fun atoi_digits :: "string \<Rightarrow> int \<Rightarrow> int" where
  "atoi_digits [] acc = acc"
| "atoi_digits (c # cs) acc =
     (if isdigit_c c then atoi_digits cs (10 * acc + (int (of_char c) - 48)) else acc)"

definition atoi :: "string \<Rightarrow> int" where
  "atoi s =
     (case dropWhile isspace_c s of
        [] \<Rightarrow> 0
      | c # cs \<Rightarrow>
          if c = CHR ''-'' then - atoi_digits cs 0
          else if c = CHR ''+'' then atoi_digits cs 0
          else atoi_digits (c # cs) 0)"

subsection \<open>The text-chart engine: \<^verbatim>\<open>parseNoteSection\<close>\<close>

text \<open>
  The local variables of \<^verbatim>\<open>parseNoteSection\<close>, threaded through the loop: the note data
  being built, the three five-element vectors (last tick, last length and HOPO flag of
  each track), the track of the preceding note, and the last forced, tap and chord ticks.
\<close>

record ChartState =
  newNotes :: NoteData
  iPrevNoteMark :: "int list"
  iPrevNoteTrack :: int
  iPrevNoteLength :: "int list"
  bPrevNoteHOPO :: "bool list"
  iLastForcedRow :: int
  iLastTapRow :: int
  iLastChordRow :: int

definition initChartState :: ChartState where
  "initChartState =
     \<lparr>newNotes = emptyNoteData,
      iPrevNoteMark = replicate 5 (- 1),
      iPrevNoteTrack = - 1,
      iPrevNoteLength = replicate 5 (- 1),
      bPrevNoteHOPO = replicate 5 False,
      iLastForcedRow = - 1,
      iLastTapRow = - 1,
      iLastChordRow = - 1\<rparr>"

text \<open>
  A forced marker (\<^verbatim>\<open>E *\<close>, or a note on track 5; the source has the same loop twice):
  the tick is recorded and every one of the five tracks is re-emitted at that row, as a
  HOPO when the note read there is a HOPO and as a gem otherwise.
\<close>

definition forcedLane :: "(int \<Rightarrow> int \<Rightarrow> int) \<Rightarrow> int \<Rightarrow> int \<Rightarrow> nat \<Rightarrow> NoteData \<Rightarrow> NoteData" where
  "forcedLane btr resolution iForced l notes =
     (let tn = GetTapNote notes (int l) (btr iForced resolution);
          wasHopo = (tnType tn = TapNoteType_HOPO \<or> tnType tn = TapNoteType_HOPOHold)
      in addNote notes (int l) (btr iForced resolution)
           (btr iForced resolution + iDuration tn) (if wasHopo then 3 else 2))"

definition forcedMarker :: "(int \<Rightarrow> int \<Rightarrow> int) \<Rightarrow> int \<Rightarrow> int \<Rightarrow> ChartState \<Rightarrow> ChartState" where
  "forcedMarker btr resolution tick st =
     st\<lparr>iLastForcedRow := tick,
        newNotes := fold (forcedLane btr resolution tick) [0..<5] (newNotes st)\<rparr>"

text \<open>A tap marker (\<^verbatim>\<open>E T\<close>): the tick is recorded and every note on that row becomes a tap.\<close>

definition tapLane :: "(int \<Rightarrow> int \<Rightarrow> int) \<Rightarrow> int \<Rightarrow> int \<Rightarrow> nat \<Rightarrow> NoteData \<Rightarrow> NoteData" where
  "tapLane btr resolution iTap l notes =
     (let tn = GetTapNote notes (int l) (btr iTap resolution)
      in if tn \<noteq> TAP_EMPTY then
           addNote notes (int l) (btr iTap resolution) (btr iTap resolution + iDuration tn) 1
         else notes)"

definition tapMarker :: "(int \<Rightarrow> int \<Rightarrow> int) \<Rightarrow> int \<Rightarrow> int \<Rightarrow> ChartState \<Rightarrow> ChartState" where
  "tapMarker btr resolution tick st =
     st\<lparr>iLastTapRow := tick,
        newNotes := fold (tapLane btr resolution tick) [0..<5] (newNotes st)\<rparr>"

text \<open>
  A note record \<open>(iNoteMark, iNoteTrack, iNoteLength)\<close> on a playable track, in the four
  stages of the source: the sustain correction of the previous note of the track, the
  loop that turns HOPOs on the same beat into gems, the emission (tap override, or the
  HOPO decision with the forced inversion), and the update of the per-track vectors.
\<close>

definition sustainCorrection ::
  "(int \<Rightarrow> int \<Rightarrow> int) \<Rightarrow> int \<Rightarrow> nat \<Rightarrow> int \<Rightarrow> ChartState \<Rightarrow> ChartState" where
  "sustainCorrection btr resolution tr iNoteMark st =
     (if iPrevNoteLength st ! tr + iPrevNoteMark st ! tr + 1 \<ge> iNoteMark then
        (let pm = iPrevNoteMark st ! tr;
             n1 = SetTapNote (newNotes st) (int tr) (btr pm resolution) TAP_EMPTY;
             len = iNoteMark - pm - c_div resolution 8;
             n2 = addNote n1 (int tr) (btr pm resolution) (btr (pm + len) resolution)
                    (if bPrevNoteHOPO st ! tr then 3 else 2)
         in st\<lparr>newNotes := n2, iPrevNoteLength := (iPrevNoteLength st)[tr := len]\<rparr>)
      else st)"

definition chordBreakStep ::
  "(int \<Rightarrow> int \<Rightarrow> int) \<Rightarrow> int \<Rightarrow> nat \<Rightarrow> int \<Rightarrow> nat \<Rightarrow> ChartState \<Rightarrow> ChartState" where
  "chordBreakStep btr resolution tr iNoteMark k st =
     (if bPrevNoteHOPO st ! k \<and> k \<noteq> tr \<and> \<bar>iNoteMark - iPrevNoteMark st ! k\<bar> \<le> 1 then
        st\<lparr>iLastChordRow := iNoteMark,
           newNotes := addNote (newNotes st) (int k) (btr (iPrevNoteMark st ! k) resolution)
                         (btr (iPrevNoteMark st ! k + iPrevNoteLength st ! k) resolution) 2,
           bPrevNoteHOPO := (bPrevNoteHOPO st)[k := False]\<rparr>
      else st)"

definition chordBreak ::
  "(int \<Rightarrow> int \<Rightarrow> int) \<Rightarrow> int \<Rightarrow> nat \<Rightarrow> int \<Rightarrow> ChartState \<Rightarrow> ChartState" where
  "chordBreak btr resolution tr iNoteMark st =
     fold (chordBreakStep btr resolution tr iNoteMark) [0..<5] st"

text \<open>
  The loop that computes \<^verbatim>\<open>ShouldBeHOPO\<close>, over the tracks still to visit; each of the
  two \<^verbatim>\<open>break\<close>s leaves the loop with the value false.
\<close>

fun hopoLoop :: "int \<Rightarrow> nat \<Rightarrow> int \<Rightarrow> ChartState \<Rightarrow> nat list \<Rightarrow> bool \<Rightarrow> bool" where
  "hopoLoop iHopoResolution tr iNoteMark st [] ShouldBeHOPO = ShouldBeHOPO"
| "hopoLoop iHopoResolution tr iNoteMark st (k # ks) ShouldBeHOPO =
     (let b = (if \<bar>iNoteMark - iPrevNoteMark st ! k\<bar> - 1 \<le> iHopoResolution
                  \<and> int tr \<noteq> iPrevNoteTrack st \<and> iPrevNoteMark st ! k \<noteq> - 1
               then True else ShouldBeHOPO)
      in if \<bar>iNoteMark - iPrevNoteMark st ! k\<bar> \<le> 1
            \<or> (\<bar>iLastChordRow st - iNoteMark\<bar> \<le> 1 \<and> iLastChordRow st \<noteq> - 1)
         then False
         else if iPrevNoteTrack st \<noteq> - 1 \<and> iPrevNoteMark st ! tr \<noteq> - 1
                 \<and> iPrevNoteMark st ! nat (iPrevNoteTrack st) \<noteq> - 1
                 \<and> \<bar>iPrevNoteMark st ! tr - iPrevNoteMark st ! nat (iPrevNoteTrack st)\<bar> \<le> 1
                 \<and> iPrevNoteTrack st \<noteq> int tr
         then False
         else hopoLoop iHopoResolution tr iNoteMark st ks b)"

definition hopoScan :: "int \<Rightarrow> nat \<Rightarrow> int \<Rightarrow> ChartState \<Rightarrow> bool" where
  "hopoScan iHopoResolution tr iNoteMark st =
     hopoLoop iHopoResolution tr iNoteMark st [0..<5] False"

definition hopoDecision :: "int \<Rightarrow> nat \<Rightarrow> int \<Rightarrow> ChartState \<Rightarrow> bool" where
  "hopoDecision iHopoResolution tr iNoteMark st =
     (let ShouldBeHOPO = hopoScan iHopoResolution tr iNoteMark st
      in if \<bar>iLastForcedRow st - iNoteMark\<bar> \<le> 1 \<and> iLastForcedRow st \<noteq> - 1
         then \<not> ShouldBeHOPO else ShouldBeHOPO)"

definition emitNote ::
  "(int \<Rightarrow> int \<Rightarrow> int) \<Rightarrow> int \<Rightarrow> int \<Rightarrow> nat \<Rightarrow> int \<Rightarrow> int \<Rightarrow> ChartState \<Rightarrow> ChartState" where
  "emitNote btr resolution iHopoResolution tr iNoteMark iNoteLength st =
     (if \<bar>iLastTapRow st - iNoteMark\<bar> \<le> 1 \<and> iLastTapRow st \<noteq> - 1 then
        st\<lparr>newNotes := addNote (newNotes st) (int tr) (btr iNoteMark resolution)
                          (btr (iNoteMark + iNoteLength) resolution) 1,
           bPrevNoteHOPO := (bPrevNoteHOPO st)[tr := False]\<rparr>
      else
        (let ShouldBeHOPO = hopoDecision iHopoResolution tr iNoteMark st
         in st\<lparr>newNotes := addNote (newNotes st) (int tr) (btr iNoteMark resolution)
                              (btr (iNoteMark + iNoteLength) resolution)
                              (if ShouldBeHOPO then 3 else 2),
               bPrevNoteHOPO := (bPrevNoteHOPO st)[tr := ShouldBeHOPO]\<rparr>))"

definition recordNote :: "nat \<Rightarrow> int \<Rightarrow> int \<Rightarrow> ChartState \<Rightarrow> ChartState" where
  "recordNote tr iNoteMark iNoteLength st =
     st\<lparr>iPrevNoteMark := (iPrevNoteMark st)[tr := iNoteMark],
        iPrevNoteTrack := int tr,
        iPrevNoteLength := (iPrevNoteLength st)[tr := iNoteLength]\<rparr>"

text \<open>
  The vectors have five elements: a track outside \<open>0..4\<close> (other than the marker track 5,
  which the caller handles) indexes them out of range, which is \<open>None\<close> here.
\<close>

definition noteRecord ::
  "(int \<Rightarrow> int \<Rightarrow> int) \<Rightarrow> int \<Rightarrow> int \<Rightarrow> int \<Rightarrow> int \<Rightarrow> int \<Rightarrow> ChartState \<Rightarrow> ChartState option" where
  "noteRecord btr resolution iHopoResolution iNoteTrack iNoteMark iNoteLength st =
     (if iNoteTrack < 0 \<or> 5 \<le> iNoteTrack then None
      else
        (let tr = nat iNoteTrack;
             st1 = sustainCorrection btr resolution tr iNoteMark st;
             st2 = chordBreak btr resolution tr iNoteMark st1;
             st3 = emitNote btr resolution iHopoResolution tr iNoteMark iNoteLength st2
         in Some (recordNote tr iNoteMark iNoteLength st3)))"

text \<open>
  One data line of the section, as the words \<^verbatim>\<open>tick = TYPE args...\<close>. A line too short
  for the word the source reads is \<open>None\<close>.
\<close>

definition parseNoteLine ::
  "(int \<Rightarrow> int \<Rightarrow> int) \<Rightarrow> int \<Rightarrow> int \<Rightarrow> ChartState \<Rightarrow> string list \<Rightarrow> ChartState option" where
  "parseNoteLine btr resolution iHopoResolution st vsWords =
     (if length vsWords < 3 then None
      else if vsWords ! 2 = ''E'' then
        (if length vsWords < 4 then None
         else
           (let st1 = (if vsWords ! 3 = ''*'' then forcedMarker btr resolution (atoi (vsWords ! 0)) st
                       else st);
                st2 = (if vsWords ! 3 = ''T'' then tapMarker btr resolution (atoi (vsWords ! 0)) st1
                       else st1)
            in Some st2))
      else if vsWords ! 2 = ''N'' then
        (if length vsWords < 4 then None
         else if atoi (vsWords ! 3) = 5 then
           Some (forcedMarker btr resolution (atoi (vsWords ! 0)) st)
         else if length vsWords < 5 then None
         else noteRecord btr resolution iHopoResolution (atoi (vsWords ! 3))
                (atoi (vsWords ! 0)) (atoi (vsWords ! 4)) st)
      else Some st)"

text \<open>
  The loop of \<^verbatim>\<open>parseNoteSection\<close>: an empty line (or the end of the stream) and a
  closing brace end the section, an opening brace is skipped.
\<close>

fun parseNoteLines ::
  "(int \<Rightarrow> int \<Rightarrow> int) \<Rightarrow> int \<Rightarrow> int \<Rightarrow> ChartState \<Rightarrow> string list \<Rightarrow> ChartState option" where
  "parseNoteLines btr resolution iHopoResolution st [] = Some st"
| "parseNoteLines btr resolution iHopoResolution st (line # rest) =
     (case getLineWords line of
        [] \<Rightarrow> Some st
      | w0 # ws \<Rightarrow>
          (case w0 of
             [] \<Rightarrow> None
           | c # cs \<Rightarrow>
               if c = CHR ''{'' then parseNoteLines btr resolution iHopoResolution st rest
               else if c = CHR ''}'' then Some st
               else
                 (case parseNoteLine btr resolution iHopoResolution st (w0 # ws) of
                    None \<Rightarrow> None
                  | Some st' \<Rightarrow> parseNoteLines btr resolution iHopoResolution st' rest)))"

definition parseNoteSection ::
  "(int \<Rightarrow> int \<Rightarrow> int) \<Rightarrow> string list \<Rightarrow> int \<Rightarrow> int \<Rightarrow> NoteData option" where
  "parseNoteSection btr iss resolution iHopoResolution =
     map_option newNotes (parseNoteLines btr resolution iHopoResolution initChartState iss)"

subsection \<open>The MIDI engine: System-Exclusive payloads\<close>

text \<open>
  The difficulties of the game; the two loaders name \<^verbatim>\<open>Difficulty_Easy\<close>,
  \<^verbatim>\<open>Difficulty_Medium\<close>, \<^verbatim>\<open>Difficulty_Hard\<close>, \<^verbatim>\<open>Difficulty_Challenge\<close> and
  \<^verbatim>\<open>Difficulty_Invalid\<close>, \<^verbatim>\<open>Steps.cpp\<close> also \<^verbatim>\<open>Difficulty_Beginner\<close> and
  \<^verbatim>\<open>Difficulty_Edit\<close>.
\<close>

datatype Difficulty =
    Difficulty_Beginner
  | Difficulty_Easy
  | Difficulty_Medium
  | Difficulty_Hard
  | Difficulty_Challenge
  | Difficulty_Edit
  | Difficulty_Invalid

text \<open>
  The payload is a \<^verbatim>\<open>const char *\<close>, compared byte by byte with \<^verbatim>\<open>unsigned char\<close>
  constants; both sides are promoted to \<^verbatim>\<open>int\<close>. Whether \<^verbatim>\<open>char\<close> is signed is left
  to the platform by the language, so it is the parameter \<open>char_signed\<close>: a signed
  \<^verbatim>\<open>char\<close> holding the byte \<open>0xFF\<close> is \<open>-1\<close> and differs from the constant \<open>0xFF = 255\<close>.
  A read beyond the payload is \<open>None\<close>.
\<close>

definition char_val :: "bool \<Rightarrow> 8 word \<Rightarrow> int" where
  "char_val char_signed b = (if char_signed then sint b else uint b)"

definition commHeader :: "8 word list" where
  "commHeader = [0x50, 0x53, 0x00, 0x00]"

fun headerLoop :: "bool \<Rightarrow> 8 word list \<Rightarrow> nat list \<Rightarrow> bool option" where
  "headerLoop char_signed pData [] = Some True"
| "headerLoop char_signed pData (i # is) =
     (if length pData \<le> i then None
      else if char_val char_signed (pData ! i) \<noteq> uint (commHeader ! i) then Some False
      else headerLoop char_signed pData is)"

definition translateSysex :: "bool \<Rightarrow> 8 word list \<Rightarrow> Difficulty \<Rightarrow> int option" where
  "translateSysex char_signed pData diff =
     (case headerLoop char_signed pData [0..<4] of
        None \<Rightarrow> None
      | Some False \<Rightarrow> Some (- 1)
      | Some True \<Rightarrow>
          if length pData < 6 then None
          else
            (let p4 = char_val char_signed (pData ! 4);
                 p5 = char_val char_signed (pData ! 5);
                 ret = (if p4 = uint (0xFF :: 8 word) \<and> p5 = uint (0x04 :: 8 word) then 1
                        else if p5 = uint (0x01 :: 8 word)
                                \<and> ((p4 = uint (0x00 :: 8 word) \<and> diff = Difficulty_Easy)
                                    \<or> (p4 = uint (0x01 :: 8 word) \<and> diff = Difficulty_Medium)
                                    \<or> (p4 = uint (0x02 :: 8 word) \<and> diff = Difficulty_Hard)
                                    \<or> (p4 = uint (0x03 :: 8 word) \<and> diff = Difficulty_Challenge))
                        then 3
                        else - 1)
             in if ret = - 1 then Some (- 1)
                else if length pData < 8 then None
                else if char_val char_signed (pData ! 7) = uint (0xF7 :: 8 word) then
                  (if char_val char_signed (pData ! 6) = uint (0x00 :: 8 word) then Some (ret + 1)
                   else if char_val char_signed (pData ! 6) \<noteq> uint (0x01 :: 8 word) then Some (- 1)
                   else Some ret)
                else Some ret))"

subsection \<open>The MIDI engine: classification state\<close>

datatype HOPORules = GH_HOPO_Rules | RB_HOPO_Rules | Unknown_Rules

datatype ChartFrets = FIVE_FRETS | SIX_FRETS

text \<open>
  The struct \<^verbatim>\<open>GuitarData\<close>; its fields carry the prefix \<open>gd_\<close> here, the names without
  it being the local variables of the text engine above.
\<close>

record GuitarData =
  gd_iPrevNoteMark :: "int list"
  gd_iPrevNoteTrack :: int
  gd_iLastForcedHOPO :: int
  gd_iLastForcedStrum :: int
  gd_iLastChordRow :: int
  gd_iResolution :: int
  gd_iHopoResolution :: int
  gd_iCols :: int
  gd_bInTapSection :: bool
  gd_bInOpenSection :: bool
  gd_hopoRules :: HOPORules
  gd_fretType :: ChartFrets

definition getNewGuitarData :: "int \<Rightarrow> int \<Rightarrow> HOPORules \<Rightarrow> ChartFrets \<Rightarrow> GuitarData" where
  "getNewGuitarData resolution hopoResolution rules fretType =
     (let cols = (if fretType = FIVE_FRETS then 6 else 7)
      in \<lparr>gd_iPrevNoteMark = replicate (nat cols) (- 1),
          gd_iPrevNoteTrack = - 1,
          gd_iLastForcedHOPO = - 1,
          gd_iLastForcedStrum = - 1,
          gd_iLastChordRow = - 1,
          gd_iResolution = resolution,
          gd_iHopoResolution = hopoResolution,
          gd_iCols = cols,
          gd_bInTapSection = False,
          gd_bInOpenSection = False,
          gd_hopoRules = rules,
          gd_fretType = fretType\<rparr>)"

definition getNoteRangeForDifficulty :: "Difficulty \<Rightarrow> ChartFrets \<Rightarrow> int \<times> int \<Rightarrow> int \<times> int" where
  \<comment> \<open>the pair is \<open>(*lower, *upper)\<close>; a difficulty without a case leaves both as they were\<close>
  "getNoteRangeForDifficulty diff fretType lu =
     (let isGHL = (fretType = SIX_FRETS)
      in case diff of
           Difficulty_Easy \<Rightarrow> (if isGHL then 58 else 60, 66)
         | Difficulty_Medium \<Rightarrow> (if isGHL then 70 else 72, 78)
         | Difficulty_Hard \<Rightarrow> (if isGHL then 82 else 84, 90)
         | Difficulty_Challenge \<Rightarrow> (if isGHL then 94 else 96, 102)
         | _ \<Rightarrow> lu)"

subsection \<open>The MIDI engine: \<^verbatim>\<open>checkHOPOConditions\<close>\<close>

text \<open>
  The \<^verbatim>\<open>while\<close> loop over the lanes: it sets \<^verbatim>\<open>ShouldBeHOPO\<close> and tracks the latest
  last-note tick (\<^verbatim>\<open>prevNoteMark\<close>) and its lane (\<^verbatim>\<open>prevNoteTrack\<close>). The accumulator is
  \<open>(ShouldBeHOPO, prevNoteTrack, prevNoteMark)\<close>.
\<close>

fun laneLoop :: "int \<Rightarrow> int \<Rightarrow> GuitarData \<Rightarrow> nat list \<Rightarrow> bool \<times> int \<times> int \<Rightarrow> bool \<times> int \<times> int" where
  "laneLoop iNoteTrack iNoteMark gd [] acc = acc"
| "laneLoop iNoteTrack iNoteMark gd (k # ks) (ShouldBeHOPO, prevNoteTrack, prevNoteMark) =
     laneLoop iNoteTrack iNoteMark gd ks
       (if iNoteMark - gd_iPrevNoteMark gd ! k \<le> gd_iHopoResolution gd
           \<and> iNoteTrack \<noteq> int k \<and> gd_iPrevNoteMark gd ! k \<noteq> - 1
        then True else ShouldBeHOPO,
        if gd_iPrevNoteMark gd ! k > prevNoteMark then int k else prevNoteTrack,
        if gd_iPrevNoteMark gd ! k > prevNoteMark then gd_iPrevNoteMark gd ! k else prevNoteMark)"

definition checkHOPOConditions :: "int \<Rightarrow> int \<Rightarrow> GuitarData \<Rightarrow> bool" where
  "checkHOPOConditions iNoteTrack iNoteMark gd =
     (if gd_iLastForcedStrum gd = iNoteMark then False
      else if gd_iLastForcedHOPO gd = iNoteMark \<and> gd_iLastForcedHOPO gd \<noteq> - 1 then True
      else if gd_iLastChordRow gd = iNoteMark \<and> gd_iLastChordRow gd \<noteq> - 1 then False
      else
        (case laneLoop iNoteTrack iNoteMark gd [0..<nat (gd_iCols gd)] (False, - 1, - 1) of
           (ShouldBeHOPO, prevNoteTrack, prevNoteMark) \<Rightarrow>
             if gd_hopoRules gd = RB_HOPO_Rules \<and> prevNoteTrack \<noteq> - 1
                \<and> gd_iPrevNoteMark gd ! nat iNoteTrack \<noteq> - 1 \<and> prevNoteMark \<noteq> - 1
                \<and> gd_iPrevNoteMark gd ! nat iNoteTrack = prevNoteMark
             then False else ShouldBeHOPO))"

subsection \<open>The MIDI engine: \<^verbatim>\<open>addGHRBNote\<close>\<close>

text \<open>
  The loop that reads the row: \<^verbatim>\<open>taps[i]\<close> is the note of lane \<open>i\<close> at the start row,
  and the accumulator is \<open>(isChordRow, highestNote)\<close>.
\<close>

definition rowScanStep :: "TapNote list \<Rightarrow> nat \<Rightarrow> bool \<times> int \<Rightarrow> bool \<times> int" where
  "rowScanStep taps i acc =
     (if taps ! i \<noteq> TAP_EMPTY
      then (True, if int i > snd acc then int i else snd acc)
      else acc)"

definition rowScan :: "TapNote list \<Rightarrow> nat \<Rightarrow> bool \<times> int" where
  "rowScan taps n = fold (rowScanStep taps) [0..<n] (False, - 1)"

text \<open>
  The forced-HOPO marker on a row with notes: the lanes are visited from the highest
  down; the first occupied lane is placed again as a HOPO, every later one is emptied.
\<close>

fun forcedHopoLoop :: "TapNote list \<Rightarrow> int \<Rightarrow> nat list \<Rightarrow> bool \<Rightarrow> NoteData \<Rightarrow> NoteData" where
  "forcedHopoLoop taps startRow [] foundHighest notes = notes"
| "forcedHopoLoop taps startRow (i # is) foundHighest notes =
     (if taps ! i = TAP_EMPTY then forcedHopoLoop taps startRow is foundHighest notes
      else if foundHighest then
        forcedHopoLoop taps startRow is foundHighest (SetTapNote notes (int i) startRow TAP_EMPTY)
      else
        forcedHopoLoop taps startRow is True
          (placeNote notes (int i) startRow (startRow + iDuration (taps ! i)) 3))"

definition forcedStrumStep :: "TapNote list \<Rightarrow> int \<Rightarrow> nat \<Rightarrow> NoteData \<Rightarrow> NoteData" where
  "forcedStrumStep taps startRow i notes =
     (if taps ! i = TAP_EMPTY then notes
      else placeNote notes (int i) startRow (startRow + iDuration (taps ! i)) 2)"

text \<open>
  The last branch of \<^verbatim>\<open>addGHRBNote\<close> ("this is a normal note"), with the local
  variables it reads as arguments: the snapshot \<open>taps\<close> of the row, \<open>isChordRow\<close>,
  \<open>highestNote\<close>, the column, the start tick and the start and end rows. A playable
  column outside the lanes would index \<^verbatim>\<open>gd.iPrevNoteMark\<close> out of range: \<open>None\<close>. The
  early \<^verbatim>\<open>return\<close> for the lower note of a forced row leaves note data and guitar data
  as they were.
\<close>

definition addNormalNote ::
  "NoteData \<Rightarrow> TapNote list \<Rightarrow> bool \<Rightarrow> int \<Rightarrow> int \<Rightarrow> int \<Rightarrow> int \<Rightarrow> int \<Rightarrow> GuitarData
     \<Rightarrow> (NoteData \<times> GuitarData) option" where
  "addNormalNote notes taps isChordRow highestNote col start startRow endRow gd =
     (let col1 = (if gd_bInOpenSection gd \<or> (col = - 1 \<and> gd_iCols gd = 7)
                  then gd_iCols gd - 1 else col);
          gd1 = gd\<lparr>gd_iPrevNoteMark := (gd_iPrevNoteMark gd)[nat col1 := start],
                   gd_iPrevNoteTrack := col1\<rparr>
      in if col1 < 0 \<or> gd_iCols gd \<le> col1 then None
         else if gd_bInTapSection gd then
           Some (placeNote notes col1 startRow endRow 1, gd1)
         else if isChordRow then
           (let wasHopo = (tnType (taps ! nat highestNote) = TapNoteType_HOPO
                           \<or> tnType (taps ! nat highestNote) = TapNoteType_HOPOHold)
            in if start = gd_iLastForcedHOPO gd then
                 (if col1 < highestNote then Some (notes, gd)
                  else
                    Some (placeNote (SetTapNote notes highestNote startRow TAP_EMPTY)
                            col1 startRow endRow (if wasHopo then 3 else 2),
                          gd1\<lparr>gd_iLastChordRow := start\<rparr>))
               else
                 Some (placeNote
                         (if wasHopo then
                            placeNote notes highestNote startRow
                              (startRow + iDuration (taps ! nat highestNote)) 2
                          else notes)
                         col1 startRow endRow 2,
                       gd1\<lparr>gd_iLastChordRow := start\<rparr>))
         else
           (let isHopo = checkHOPOConditions col1 start gd
            in Some (placeNote notes col1 startRow endRow (if isHopo then 3 else 2), gd1)))"

text \<open>
  \<^verbatim>\<open>addGHRBNote\<close> returns the note data and the guitar data it leaves: the held
  computation, the column shift of six-fret charts, the snapshot of the row, then the
  forced-HOPO marker lane, the forced-strum marker lane, or a normal note.
\<close>

definition realEndOf :: "int \<Rightarrow> int \<Rightarrow> GuitarData \<Rightarrow> int" where
  "realEndOf start end gd =
     (if end - start > c_div (gd_iResolution gd) 2
      then end - c_div (gd_iResolution gd) 8 else start)"

definition rowTaps :: "(int \<Rightarrow> int \<Rightarrow> int) \<Rightarrow> NoteData \<Rightarrow> int \<Rightarrow> GuitarData \<Rightarrow> TapNote list" where
  "rowTaps btr notes start gd =
     map (\<lambda>i. GetTapNote notes (int i) (btr start (gd_iResolution gd))) [0..<nat (gd_iCols gd)]"

definition addGHRBNote ::
  "(int \<Rightarrow> int \<Rightarrow> int) \<Rightarrow> NoteData \<Rightarrow> int \<Rightarrow> int \<Rightarrow> int \<Rightarrow> GuitarData
     \<Rightarrow> (NoteData \<times> GuitarData) option" where
  "addGHRBNote btr notes col0 start end gd =
     (let realEnd = realEndOf start end gd;
          col = (if gd_iCols gd = 7 \<and> col0 < 7 then col0 - 1 else col0);
          startRow = btr start (gd_iResolution gd);
          endRow = btr realEnd (gd_iResolution gd);
          n = nat (gd_iCols gd);
          taps = rowTaps btr notes start gd;
          isChordRow = fst (rowScan taps n);
          highestNote = snd (rowScan taps n)
      in if (col = 5 \<and> gd_iCols gd = 6) \<or> (col = 7 \<and> gd_iCols gd = 7) then
           Some (if isChordRow then forcedHopoLoop taps startRow (rev [0..<n]) False notes
                 else notes,
                 gd\<lparr>gd_iLastForcedHOPO := start\<rparr>)
         else if (col = 6 \<and> gd_iCols gd = 6) \<or> (col = 8 \<and> gd_iCols gd = 7) then
           Some (if isChordRow then fold (forcedStrumStep taps startRow) [0..<n] notes
                 else notes,
                 gd\<lparr>gd_iLastForcedStrum := start\<rparr>)
         else addNormalNote notes taps isChordRow highestNote col start startRow endRow gd)"

text \<open>
  Names for what \<^verbatim>\<open>addGHRBNote\<close> computes on the way, used to state its properties: the
  MIDI columns that carry playable notes (0 to 4 of a five-fret chart; 0 to 6 of a
  six-fret chart, the others being the two marker columns), the lane a playable column is
  placed on (after the six-fret shift and the open-note remap), and the condition of the
  early \<^verbatim>\<open>return\<close>: outside a tap section, on a row that already has a note and is the
  last forced-HOPO row, a lane below the highest occupied one.
\<close>

definition playableColumn :: "int \<Rightarrow> GuitarData \<Rightarrow> bool" where
  "playableColumn col0 gd =
     ((gd_iCols gd = 6 \<and> 0 \<le> col0 \<and> col0 < 5) \<or> (gd_iCols gd = 7 \<and> 0 \<le> col0 \<and> col0 < 7))"

definition laneOf :: "int \<Rightarrow> GuitarData \<Rightarrow> int" where
  "laneOf col0 gd =
     (let col = (if gd_iCols gd = 7 \<and> col0 < 7 then col0 - 1 else col0)
      in if gd_bInOpenSection gd \<or> (col = - 1 \<and> gd_iCols gd = 7) then gd_iCols gd - 1 else col)"

definition lowerNoteOfForcedRow ::
  "(int \<Rightarrow> int \<Rightarrow> int) \<Rightarrow> NoteData \<Rightarrow> int \<Rightarrow> int \<Rightarrow> GuitarData \<Rightarrow> bool" where
  "lowerNoteOfForcedRow btr notes col0 start gd =
     (\<not> gd_bInTapSection gd
      \<and> fst (rowScan (rowTaps btr notes start gd) (nat (gd_iCols gd)))
      \<and> start = gd_iLastForcedHOPO gd
      \<and> laneOf col0 gd < snd (rowScan (rowTaps btr notes start gd) (nat (gd_iCols gd))))"

subsection \<open>The MIDI engine: \<^verbatim>\<open>getGHRBNotesFromTrack\<close>\<close>

text \<open>
  The event stream of one track. A note event carries its subtype, note number, velocity
  and tick; a System-Exclusive event its payload; every other event type is skipped.
\<close>

datatype MidiNoteSubType = MidiNote_NoteOn | MidiNote_NoteOff | MidiNote_OtherSubType

datatype MidiEvent =
    MidiEventType_SYSEX "8 word list"
  | MidiEventType_Note MidiNoteSubType int int int
  | MidiEventType_Other

text \<open>
  What the loop does with the code of a payload: a code above 2 writes the tap-section
  flag, a code of 1 or 2 the open-section flag, any other code nothing.
\<close>

definition sysexFlags :: "int \<Rightarrow> GuitarData \<Rightarrow> GuitarData" where
  "sysexFlags type gd =
     (if type > 2 then gd\<lparr>gd_bInTapSection := (c_mod type 2 = 1)\<rparr>
      else if type > 0 then gd\<lparr>gd_bInOpenSection := (c_mod type 2 = 1)\<rparr>
      else gd)"

text \<open>
  The loop state is the note data, the notes in progress (the start tick of the open
  note of each MIDI column, if any) and the guitar data.
\<close>

definition midiEvent ::
  "bool \<Rightarrow> (int \<Rightarrow> int \<Rightarrow> int) \<Rightarrow> Difficulty \<Rightarrow> int \<Rightarrow> int \<Rightarrow> MidiEvent
     \<Rightarrow> NoteData \<times> int option list \<times> GuitarData
     \<Rightarrow> (NoteData \<times> int option list \<times> GuitarData) option" where
  "midiEvent char_signed btr diff low high ev s =
     (case s of (notes, notesInProgress, gd) \<Rightarrow>
        (case ev of
           MidiEventType_SYSEX pData \<Rightarrow>
             (case translateSysex char_signed pData diff of
                None \<Rightarrow> None
              | Some type \<Rightarrow> Some (notes, notesInProgress, sysexFlags type gd))
         | MidiEventType_Note subType note velocity tick \<Rightarrow>
             (let idx = note - low
              in if idx \<ge> 0 \<and> note \<le> high then
                   (if length notesInProgress \<le> nat idx then None
                    else if subType = MidiNote_NoteOn \<and> velocity > 0 then
                      (if notesInProgress ! nat idx = None
                       then Some (notes, notesInProgress[nat idx := Some tick], gd)
                       else Some s)
                    else if subType = MidiNote_NoteOff
                            \<or> (subType = MidiNote_NoteOn \<and> velocity = 0) then
                      (case notesInProgress ! nat idx of
                         None \<Rightarrow> Some s
                       | Some start \<Rightarrow>
                           if tick > start then
                             (case addGHRBNote btr notes idx start tick gd of
                                None \<Rightarrow> None
                              | Some (notes', gd') \<Rightarrow>
                                  Some (notes', notesInProgress[nat idx := None], gd'))
                           else Some s)
                    else Some s)
                 else Some s)
         | MidiEventType_Other \<Rightarrow> Some s))"

fun midiEvents ::
  "bool \<Rightarrow> (int \<Rightarrow> int \<Rightarrow> int) \<Rightarrow> Difficulty \<Rightarrow> int \<Rightarrow> int \<Rightarrow> MidiEvent list
     \<Rightarrow> NoteData \<times> int option list \<times> GuitarData
     \<Rightarrow> (NoteData \<times> int option list \<times> GuitarData) option" where
  "midiEvents char_signed btr diff low high [] s = Some s"
| "midiEvents char_signed btr diff low high (ev # evs) s =
     (case midiEvent char_signed btr diff low high ev s of
        None \<Rightarrow> None
      | Some s' \<Rightarrow> midiEvents char_signed btr diff low high evs s')"

definition getGHRBNotesFromTrack ::
  "bool \<Rightarrow> (int \<Rightarrow> int \<Rightarrow> int) \<Rightarrow> MidiEvent list \<Rightarrow> Difficulty \<Rightarrow> HOPORules \<Rightarrow> ChartFrets
     \<Rightarrow> int \<Rightarrow> int \<Rightarrow> NoteData option" where
  "getGHRBNotesFromTrack char_signed btr track diff rules fretType resolution HOPOres =
     (let cols = (if fretType = FIVE_FRETS then 6 else 7) :: nat;
          bonusCols = (if fretType = SIX_FRETS then 2 else 1) :: nat;
          lh = getNoteRangeForDifficulty diff fretType (0, 0);
          gd = getNewGuitarData resolution HOPOres rules fretType
      in map_option fst
           (midiEvents char_signed btr diff (fst lh) (snd lh) track
              (emptyNoteData, replicate (cols + bonusCols) None, gd)))"

section \<open>Properties\<close>

lemmas tap_consts =
  TAP_EMPTY_def TAP_ORIGINAL_TAP_def TAP_ORIGINAL_HOLD_HEAD_def TAP_ORIGINAL_GEM_def
  TAP_ORIGINAL_GEM_HOLD_def TAP_ORIGINAL_HOPO_def TAP_ORIGINAL_HOPO_HOLD_def

lemmas store_defs = GetTapNote_def SetTapNote_def AddHoldNote_def

text \<open>
  C10. For every track, start row, end row and every note category outside \<open>{1, 2, 3}\<close>,
  the text engine's emitter \<^verbatim>\<open>addNote\<close> returns without modifying the note data: the
  returned note data is the one it was given, so no event at any track or row is set,
  overwritten or cleared. The MIDI engine's \<^verbatim>\<open>placeNote\<close> differs: for such a category
  it writes \<^verbatim>\<open>TAP_EMPTY\<close> at the start row (as a hold of the empty kind when the end
  exceeds the start).
\<close>

theorem addNote_invalid_category_frame:
  assumes "noteCategory \<notin> {1, 2, 3}"
  shows "addNote notes track start end noteCategory = notes
         \<and> (\<forall>t r. GetTapNote (addNote notes track start end noteCategory) t r
                  = GetTapNote notes t r)
         \<and> placeNote notes track start end noteCategory =
             (if end > start then AddHoldNote notes track start end TAP_EMPTY
              else SetTapNote notes track start TAP_EMPTY)"
  using assms by (simp add: addNote_def placeNote_def)

theorem addNote_invalid_category_frame_witness:
  "(0::int) \<notin> {1, 2, 3}
   \<and> addNote (SetTapNote emptyNoteData 2 48 TAP_ORIGINAL_HOPO) 2 48 96 0
       = SetTapNote emptyNoteData 2 48 TAP_ORIGINAL_HOPO
   \<and> GetTapNote (addNote (SetTapNote emptyNoteData 2 48 TAP_ORIGINAL_HOPO) 2 48 96 0) 2 48
       = TAP_ORIGINAL_HOPO
   \<and> GetTapNote (placeNote (SetTapNote emptyNoteData 2 48 TAP_ORIGINAL_HOPO) 2 48 48 0) 2 48
       = TAP_EMPTY"
  using addNote_invalid_category_frame [of 0 "SetTapNote emptyNoteData 2 48 TAP_ORIGINAL_HOPO" 2 48 96]
    addNote_invalid_category_frame [of 0 "SetTapNote emptyNoteData 2 48 TAP_ORIGINAL_HOPO" 2 48 48]
  by (simp add: store_defs)

lemma Get_Set: "GetTapNote (SetTapNote n t r tn) t' r' = (if t' = t \<and> r' = r then tn else GetTapNote n t' r')"
  by (simp add: store_defs)

lemma Get_AddHold: "GetTapNote (AddHoldNote n t s e tn) t' r' =
   (if t' = t \<and> r' = s then tn\<lparr>iDuration := e - s\<rparr> else GetTapNote n t' r')"
  by (simp add: store_defs)

lemma Get_addNote: "GetTapNote (addNote n t s e c) t' r' =
   (if t' = t \<and> r' = s \<and> c \<in> {1,2,3} then categoryEvent c s e else GetTapNote n t' r')"
  by (simp add: addNote_def categoryEvent_def Get_Set Get_AddHold)

lemma Get_placeNote: "GetTapNote (placeNote n t s e c) t' r' =
   (if t' = t \<and> r' = s then categoryEvent c s e else GetTapNote n t' r')"
  by (simp add: placeNote_def categoryEvent_def Get_Set Get_AddHold Let_def)

lemma categoryEvent_kinds:
  "isTap (categoryEvent 1 s e)" "isStrum (categoryEvent 2 s e)" "isHOPO (categoryEvent 3 s e)"
  "\<not> isHOPO (categoryEvent 2 s e)" "\<not> isHOPO (categoryEvent 1 s e)" "\<not> isStrum (categoryEvent 1 s e)"
  "\<not> isTap (categoryEvent 2 s e)" "\<not> isTap (categoryEvent 3 s e)" "\<not> isStrum (categoryEvent 3 s e)"
  by (simp_all add: categoryEvent_def isTap_def isStrum_def isHOPO_def tap_consts)

lemma categoryEvent_held:
  "c \<in> {1,2,3} \<Longrightarrow> isHeld (categoryEvent c s e) = (e > s)"
  by (auto simp add: categoryEvent_def isHeld_def tap_consts)

lemma categoryEvent_duration:
  "iDuration (categoryEvent c s e) = (if e > s then e - s else 0)"
  by (simp add: categoryEvent_def tap_consts)

lemma categoryEvent_nonempty: "c \<in> {1,2,3} \<Longrightarrow> categoryEvent c s e \<noteq> TAP_EMPTY"
  by (auto simp add: categoryEvent_def tap_consts)


lemma cbs_fields:
  "iPrevNoteMark (chordBreakStep btr res tr m k st) = iPrevNoteMark st"
  "iPrevNoteLength (chordBreakStep btr res tr m k st) = iPrevNoteLength st"
  "iPrevNoteTrack (chordBreakStep btr res tr m k st) = iPrevNoteTrack st"
  "iLastTapRow (chordBreakStep btr res tr m k st) = iLastTapRow st"
  "iLastForcedRow (chordBreakStep btr res tr m k st) = iLastForcedRow st"
  "length (bPrevNoteHOPO (chordBreakStep btr res tr m k st)) = length (bPrevNoteHOPO st)"
  by (simp_all add: chordBreakStep_def)

lemma cbs_self: "chordBreakStep btr res tr m tr st = st"
  by (simp add: chordBreakStep_def)

lemma cbs_chord:
  "iLastChordRow (chordBreakStep btr res tr m k st) = m \<or>
   iLastChordRow (chordBreakStep btr res tr m k st) = iLastChordRow st"
  by (simp add: chordBreakStep_def)

lemma cbs_hopo_other:
  "j \<noteq> k \<Longrightarrow> bPrevNoteHOPO (chordBreakStep btr res tr m k st) ! j = bPrevNoteHOPO st ! j"
  by (simp add: chordBreakStep_def)

lemma cbs_notes_other:
  "t \<noteq> int k \<Longrightarrow>
   GetTapNote (newNotes (chordBreakStep btr res tr m k st)) t r = GetTapNote (newNotes st) t r"
  by (simp add: chordBreakStep_def Get_addNote)

lemma cbs_hit:
  assumes "bPrevNoteHOPO st ! k" "k \<noteq> tr" "\<bar>m - iPrevNoteMark st ! k\<bar> \<le> 1"
    "k < length (bPrevNoteHOPO st)"
  shows "bPrevNoteHOPO (chordBreakStep btr res tr m k st) ! k = False"
    and "iLastChordRow (chordBreakStep btr res tr m k st) = m"
    and "GetTapNote (newNotes (chordBreakStep btr res tr m k st)) (int k)
           (btr (iPrevNoteMark st ! k) res)
         = categoryEvent 2 (btr (iPrevNoteMark st ! k) res)
             (btr (iPrevNoteMark st ! k + iPrevNoteLength st ! k) res)"
  using assms by (simp_all add: chordBreakStep_def Get_addNote)

lemma cbf_fields:
  "iPrevNoteMark (fold (chordBreakStep btr res tr m) ks st) = iPrevNoteMark st"
  "iPrevNoteLength (fold (chordBreakStep btr res tr m) ks st) = iPrevNoteLength st"
  "iPrevNoteTrack (fold (chordBreakStep btr res tr m) ks st) = iPrevNoteTrack st"
  "iLastTapRow (fold (chordBreakStep btr res tr m) ks st) = iLastTapRow st"
  "iLastForcedRow (fold (chordBreakStep btr res tr m) ks st) = iLastForcedRow st"
  "length (bPrevNoteHOPO (fold (chordBreakStep btr res tr m) ks st)) = length (bPrevNoteHOPO st)"
  by (induction ks arbitrary: st; simp add: cbs_fields)+

lemma cbf_chord_keep:
  "iLastChordRow st = m \<Longrightarrow> iLastChordRow (fold (chordBreakStep btr res tr m) ks st) = m"
proof (induction ks arbitrary: st)
  case Nil
  then show ?case by simp
next
  case (Cons k ks)
  have "iLastChordRow (chordBreakStep btr res tr m k st) = m"
    using cbs_chord [of btr res tr m k st] Cons.prems by auto
  then show ?case using Cons.IH by simp
qed

lemma cbf_hopo_other:
  "j \<notin> set ks \<Longrightarrow>
   bPrevNoteHOPO (fold (chordBreakStep btr res tr m) ks st) ! j = bPrevNoteHOPO st ! j"
  by (induction ks arbitrary: st) (simp_all add: cbs_hopo_other)

lemma cbf_hopo_self:
  "bPrevNoteHOPO (fold (chordBreakStep btr res tr m) ks st) ! tr = bPrevNoteHOPO st ! tr"
proof (induction ks arbitrary: st)
  case Nil
  then show ?case by simp
next
  case (Cons k ks)
  show ?case
  proof (cases "k = tr")
    case True
    then show ?thesis using Cons.IH by (simp add: cbs_self)
  next
    case False
    then show ?thesis using Cons.IH by (simp add: cbs_hopo_other)
  qed
qed

lemma cbf_notes_other:
  "t \<notin> int ` set ks \<Longrightarrow>
   GetTapNote (newNotes (fold (chordBreakStep btr res tr m) ks st)) t r
     = GetTapNote (newNotes st) t r"
  by (induction ks arbitrary: st) (simp_all add: cbs_notes_other)

lemma cbf_notes_self:
  "GetTapNote (newNotes (fold (chordBreakStep btr res tr m) ks st)) (int tr) r
     = GetTapNote (newNotes st) (int tr) r"
proof (induction ks arbitrary: st)
  case Nil
  then show ?case by simp
next
  case (Cons k ks)
  show ?case
  proof (cases "k = tr")
    case True
    then show ?thesis using Cons.IH by (simp add: cbs_self)
  next
    case False
    then show ?thesis using Cons.IH by (simp add: cbs_notes_other)
  qed
qed

lemma upt5_split:
  assumes "A < 5"
  shows "[0..<5] = [0..<A] @ A # [Suc A..<5]"
proof -
  have "[0..<A + (5 - A)] = [0..<A] @ [A..<A + (5 - A)]"
    by (rule upt_add_eq_append) simp
  with assms have "[0..<5] = [0..<A] @ [A..<5]" by simp
  then show ?thesis using assms by (simp add: upt_conv_Cons)
qed

lemma chordBreak_hit:
  assumes "A < 5" "A \<noteq> tr" "A < length (bPrevNoteHOPO st)" "bPrevNoteHOPO st ! A"
    "\<bar>m - iPrevNoteMark st ! A\<bar> \<le> 1"
  shows "bPrevNoteHOPO (chordBreak btr res tr m st) ! A = False
         \<and> iLastChordRow (chordBreak btr res tr m st) = m
         \<and> GetTapNote (newNotes (chordBreak btr res tr m st)) (int A)
              (btr (iPrevNoteMark st ! A) res)
            = categoryEvent 2 (btr (iPrevNoteMark st ! A) res)
                (btr (iPrevNoteMark st ! A + iPrevNoteLength st ! A) res)"
proof -
  define f where "f = chordBreakStep btr res tr m"
  define s0 where "s0 = fold f [0..<A] st"
  define s1 where "s1 = f A s0"
  have cb: "chordBreak btr res tr m st = fold f [Suc A..<5] s1"
    using upt5_split [OF assms(1)] by (simp add: chordBreak_def f_def s0_def s1_def)
  have m0: "iPrevNoteMark s0 = iPrevNoteMark st" "iPrevNoteLength s0 = iPrevNoteLength st"
    "length (bPrevNoteHOPO s0) = length (bPrevNoteHOPO st)"
    by (simp_all add: s0_def f_def cbf_fields)
  have h0: "bPrevNoteHOPO s0 ! A = bPrevNoteHOPO st ! A"
    by (simp add: s0_def f_def cbf_hopo_other)
  have hit: "bPrevNoteHOPO s1 ! A = False" "iLastChordRow s1 = m"
    "GetTapNote (newNotes s1) (int A) (btr (iPrevNoteMark st ! A) res)
       = categoryEvent 2 (btr (iPrevNoteMark st ! A) res)
           (btr (iPrevNoteMark st ! A + iPrevNoteLength st ! A) res)"
    using cbs_hit [of s0 A tr m btr res] assms m0 h0 by (simp_all add: s1_def f_def)
  have "bPrevNoteHOPO (fold f [Suc A..<5] s1) ! A = False"
    using hit(1) by (simp add: f_def cbf_hopo_other)
  moreover have "iLastChordRow (fold f [Suc A..<5] s1) = m"
    using hit(2) by (simp add: f_def cbf_chord_keep)
  moreover have "GetTapNote (newNotes (fold f [Suc A..<5] s1)) (int A)
              (btr (iPrevNoteMark st ! A) res)
            = categoryEvent 2 (btr (iPrevNoteMark st ! A) res)
                (btr (iPrevNoteMark st ! A + iPrevNoteLength st ! A) res)"
    using hit(3) by (simp add: f_def cbf_notes_other image_iff)
  ultimately show ?thesis by (simp add: cb)
qed

lemma sus_fields:
  "iPrevNoteMark (sustainCorrection btr res tr m st) = iPrevNoteMark st"
  "iPrevNoteTrack (sustainCorrection btr res tr m st) = iPrevNoteTrack st"
  "bPrevNoteHOPO (sustainCorrection btr res tr m st) = bPrevNoteHOPO st"
  "iLastTapRow (sustainCorrection btr res tr m st) = iLastTapRow st"
  "iLastForcedRow (sustainCorrection btr res tr m st) = iLastForcedRow st"
  "iLastChordRow (sustainCorrection btr res tr m st) = iLastChordRow st"
  "length (iPrevNoteLength (sustainCorrection btr res tr m st)) = length (iPrevNoteLength st)"
  by (simp_all add: sustainCorrection_def Let_def)

lemma sus_len_other:
  "j \<noteq> tr \<Longrightarrow> iPrevNoteLength (sustainCorrection btr res tr m st) ! j = iPrevNoteLength st ! j"
  by (simp add: sustainCorrection_def Let_def)

lemma sus_notes_other:
  "t \<noteq> int tr \<Longrightarrow>
   GetTapNote (newNotes (sustainCorrection btr res tr m st)) t r = GetTapNote (newNotes st) t r"
  by (simp add: sustainCorrection_def Let_def Get_addNote Get_Set)

lemma emit_fields:
  "iPrevNoteMark (emitNote btr res hr tr m len st) = iPrevNoteMark st"
  "iPrevNoteLength (emitNote btr res hr tr m len st) = iPrevNoteLength st"
  "iPrevNoteTrack (emitNote btr res hr tr m len st) = iPrevNoteTrack st"
  "iLastTapRow (emitNote btr res hr tr m len st) = iLastTapRow st"
  "iLastForcedRow (emitNote btr res hr tr m len st) = iLastForcedRow st"
  "iLastChordRow (emitNote btr res hr tr m len st) = iLastChordRow st"
  "length (bPrevNoteHOPO (emitNote btr res hr tr m len st)) = length (bPrevNoteHOPO st)"
  by (simp_all add: emitNote_def Let_def)

lemma emit_hopo_other:
  "j \<noteq> tr \<Longrightarrow> bPrevNoteHOPO (emitNote btr res hr tr m len st) ! j = bPrevNoteHOPO st ! j"
  by (simp add: emitNote_def Let_def)

lemma emit_hopo_self:
  "tr < length (bPrevNoteHOPO st) \<Longrightarrow>
   bPrevNoteHOPO (emitNote btr res hr tr m len st) ! tr =
     (\<not> (\<bar>iLastTapRow st - m\<bar> \<le> 1 \<and> iLastTapRow st \<noteq> - 1) \<and> hopoDecision hr tr m st)"
  by (simp add: emitNote_def Let_def)

lemma emit_notes:
  "GetTapNote (newNotes (emitNote btr res hr tr m len st)) t r =
     (if t = int tr \<and> r = btr m res then
        categoryEvent
          (if \<bar>iLastTapRow st - m\<bar> \<le> 1 \<and> iLastTapRow st \<noteq> - 1 then 1
           else if hopoDecision hr tr m st then 3 else 2)
          (btr m res) (btr (m + len) res)
      else GetTapNote (newNotes st) t r)"
  by (simp add: emitNote_def Let_def Get_addNote)

lemma rec_fields:
  "newNotes (recordNote tr m len st) = newNotes st"
  "bPrevNoteHOPO (recordNote tr m len st) = bPrevNoteHOPO st"
  "iLastTapRow (recordNote tr m len st) = iLastTapRow st"
  "iLastForcedRow (recordNote tr m len st) = iLastForcedRow st"
  "iLastChordRow (recordNote tr m len st) = iLastChordRow st"
  "iPrevNoteTrack (recordNote tr m len st) = int tr"
  by (simp_all add: recordNote_def)

lemma noteRecord_Some:
  "0 \<le> B \<Longrightarrow> B < 5 \<Longrightarrow>
   noteRecord btr res hr B m len st =
     Some (recordNote (nat B) m len
            (emitNote btr res hr (nat B) m len
              (chordBreak btr res (nat B) m (sustainCorrection btr res (nat B) m st))))"
  by (simp add: noteRecord_def Let_def)

text \<open>
  C3. Chord-breaks-HOPO (text). For every incoming note record at tick \<open>t\<close> on a playable
  track \<open>B\<close>, and every other track \<open>A\<close> whose HOPO flag is set and whose last tick lies
  within 1 of \<open>t\<close>: the record is processed, and afterwards the event of track \<open>A\<close> at the
  row of its last tick is the strum event emitted from its stored start and duration (a
  gem, or a gem hold), which does not read as HOPO; the HOPO flag of \<open>A\<close> is false; and
  \<open>t\<close> is the last chord tick.
\<close>

theorem chord_breaks_hopo:
  assumes "0 \<le> B" "B < 5" "A < 5" "int A \<noteq> B"
    and "length (bPrevNoteHOPO st) = 5"
    and "bPrevNoteHOPO st ! A"
    and "\<bar>t - iPrevNoteMark st ! A\<bar> \<le> 1"
  shows "case noteRecord btr resolution iHopoResolution B t len st of
           None \<Rightarrow> False
         | Some st' \<Rightarrow>
             GetTapNote (newNotes st') (int A) (btr (iPrevNoteMark st ! A) resolution)
               = categoryEvent 2 (btr (iPrevNoteMark st ! A) resolution)
                   (btr (iPrevNoteMark st ! A + iPrevNoteLength st ! A) resolution)
             \<and> isStrum (GetTapNote (newNotes st') (int A) (btr (iPrevNoteMark st ! A) resolution))
             \<and> \<not> isHOPO (GetTapNote (newNotes st') (int A) (btr (iPrevNoteMark st ! A) resolution))
             \<and> bPrevNoteHOPO st' ! A = False
             \<and> iLastChordRow st' = t"
proof -
  define tr where "tr = nat B"
  define s1 where "s1 = sustainCorrection btr resolution tr t st"
  define s2 where "s2 = chordBreak btr resolution tr t s1"
  define s3 where "s3 = emitNote btr resolution iHopoResolution tr t len s2"
  have ne: "A \<noteq> tr" "int A \<noteq> int tr" using assms(1,4) by (auto simp: tr_def)
  have res: "noteRecord btr resolution iHopoResolution B t len st = Some (recordNote tr t len s3)"
    using noteRecord_Some [OF assms(1,2)] by (simp add: tr_def s1_def s2_def s3_def)
  have a1: "iPrevNoteMark s1 ! A = iPrevNoteMark st ! A"
    "iPrevNoteLength s1 ! A = iPrevNoteLength st ! A"
    "bPrevNoteHOPO s1 ! A" "A < length (bPrevNoteHOPO s1)"
    using assms ne by (simp_all add: s1_def sus_fields sus_len_other)
  have hit: "bPrevNoteHOPO s2 ! A = False \<and> iLastChordRow s2 = t
         \<and> GetTapNote (newNotes s2) (int A) (btr (iPrevNoteMark s1 ! A) resolution)
            = categoryEvent 2 (btr (iPrevNoteMark s1 ! A) resolution)
                (btr (iPrevNoteMark s1 ! A + iPrevNoteLength s1 ! A) resolution)"
    unfolding s2_def
    using chordBreak_hit [OF assms(3) ne(1) a1(4) a1(3), of t btr resolution] assms(7) a1(1)
    by simp
  have e3: "GetTapNote (newNotes s3) (int A) (btr (iPrevNoteMark st ! A) resolution)
              = categoryEvent 2 (btr (iPrevNoteMark st ! A) resolution)
                  (btr (iPrevNoteMark st ! A + iPrevNoteLength st ! A) resolution)"
    using hit ne a1 by (simp add: s3_def emit_notes)
  have h3: "bPrevNoteHOPO s3 ! A = False" "iLastChordRow s3 = t"
    using hit ne by (simp_all add: s3_def emit_hopo_other emit_fields)
  show ?thesis
    using e3 h3 by (simp add: res rec_fields categoryEvent_kinds)
qed

theorem chord_breaks_hopo_witness:
  "case noteRecord BeatToNoteRow 192 120 2 96 0
          (initChartState
             \<lparr>newNotes := SetTapNote (SetTapNote emptyNoteData 1 0 TAP_ORIGINAL_GEM) 0 24 TAP_ORIGINAL_HOPO,
              iPrevNoteMark := [96, 0, - 1, - 1, - 1], iPrevNoteTrack := 0,
              iPrevNoteLength := [0, 0, - 1, - 1, - 1],
              bPrevNoteHOPO := [True, False, False, False, False]\<rparr>) of
     None \<Rightarrow> False
   | Some st' \<Rightarrow>
       GetTapNote (newNotes st') 0 24 = TAP_ORIGINAL_GEM
       \<and> isStrum (GetTapNote (newNotes st') 0 24)
       \<and> \<not> isHOPO (GetTapNote (newNotes st') 0 24)
       \<and> bPrevNoteHOPO st' ! 0 = False
       \<and> iLastChordRow st' = 96"
  using chord_breaks_hopo [of 2 0
      "initChartState
         \<lparr>newNotes := SetTapNote (SetTapNote emptyNoteData 1 0 TAP_ORIGINAL_GEM) 0 24 TAP_ORIGINAL_HOPO,
          iPrevNoteMark := [96, 0, - 1, - 1, - 1], iPrevNoteTrack := 0,
          iPrevNoteLength := [0, 0, - 1, - 1, - 1],
          bPrevNoteHOPO := [True, False, False, False, False]\<rparr>"
      96 BeatToNoteRow 192 120 0]
  by (auto simp add: initChartState_def BeatToNoteRow_def categoryEvent_def split: option.splits)

lemma upt5: "[0..<5] = [0, 1, 2, 3, 4]"
  by (simp add: upt_conv_Cons)

lemma hopoLoop_cong:
  "iPrevNoteMark s = iPrevNoteMark s' \<Longrightarrow> iPrevNoteTrack s = iPrevNoteTrack s' \<Longrightarrow>
   iLastChordRow s = iLastChordRow s' \<Longrightarrow>
   hopoLoop hr tr t s ks b = hopoLoop hr tr t s' ks b"
  by (induction ks arbitrary: b) simp_all

lemma cbs_ctl:
  assumes "iPrevNoteMark s = iPrevNoteMark s'" "iPrevNoteTrack s = iPrevNoteTrack s'"
    "bPrevNoteHOPO s = bPrevNoteHOPO s'" "iLastChordRow s = iLastChordRow s'"
  shows "iPrevNoteMark (chordBreakStep btr res tr m k s) = iPrevNoteMark (chordBreakStep btr res tr m k s')
       \<and> iPrevNoteTrack (chordBreakStep btr res tr m k s) = iPrevNoteTrack (chordBreakStep btr res tr m k s')
       \<and> bPrevNoteHOPO (chordBreakStep btr res tr m k s) = bPrevNoteHOPO (chordBreakStep btr res tr m k s')
       \<and> iLastChordRow (chordBreakStep btr res tr m k s) = iLastChordRow (chordBreakStep btr res tr m k s')"
  using assms by (simp add: chordBreakStep_def)

lemma cbf_ctl:
  assumes "iPrevNoteMark s = iPrevNoteMark s'" "iPrevNoteTrack s = iPrevNoteTrack s'"
    "bPrevNoteHOPO s = bPrevNoteHOPO s'" "iLastChordRow s = iLastChordRow s'"
  shows "iPrevNoteMark (fold (chordBreakStep btr res tr m) ks s)
           = iPrevNoteMark (fold (chordBreakStep btr res tr m) ks s')
       \<and> iPrevNoteTrack (fold (chordBreakStep btr res tr m) ks s)
           = iPrevNoteTrack (fold (chordBreakStep btr res tr m) ks s')
       \<and> bPrevNoteHOPO (fold (chordBreakStep btr res tr m) ks s)
           = bPrevNoteHOPO (fold (chordBreakStep btr res tr m) ks s')
       \<and> iLastChordRow (fold (chordBreakStep btr res tr m) ks s)
           = iLastChordRow (fold (chordBreakStep btr res tr m) ks s')"
  using assms
proof (induction ks arbitrary: s s')
  case Nil
  then show ?case by simp
next
  case (Cons k ks)
  show ?case
    using Cons.IH [of "chordBreakStep btr res tr m k s" "chordBreakStep btr res tr m k s'"]
      cbs_ctl [OF Cons.prems, of btr res tr m k]
    by simp
qed

lemma forcedMarker_fields:
  "iLastForcedRow (forcedMarker btr res f st) = f"
  "iPrevNoteMark (forcedMarker btr res f st) = iPrevNoteMark st"
  "iPrevNoteTrack (forcedMarker btr res f st) = iPrevNoteTrack st"
  "iPrevNoteLength (forcedMarker btr res f st) = iPrevNoteLength st"
  "bPrevNoteHOPO (forcedMarker btr res f st) = bPrevNoteHOPO st"
  "iLastTapRow (forcedMarker btr res f st) = iLastTapRow st"
  "iLastChordRow (forcedMarker btr res f st) = iLastChordRow st"
  by (simp_all add: forcedMarker_def)

lemma scan_after_marker:
  "hopoScan hr tr t (chordBreak btr res tr t (sustainCorrection btr res tr t (forcedMarker btr res f st)))
   = hopoScan hr tr t (chordBreak btr res tr t (sustainCorrection btr res tr t st))"
  unfolding hopoScan_def chordBreak_def
  by (rule hopoLoop_cong)
     (simp_all add: cbf_ctl [of "sustainCorrection btr res tr t (forcedMarker btr res f st)"
        "sustainCorrection btr res tr t st"] sus_fields forcedMarker_fields)

lemma decision_step:
  assumes "0 \<le> B" "B < 5" "length (bPrevNoteHOPO st) = 5"
    and "\<not> (\<bar>iLastTapRow st - t\<bar> \<le> 1 \<and> iLastTapRow st \<noteq> - 1)"
  shows "case noteRecord btr res hr B t len st of
           None \<Rightarrow> False
         | Some st' \<Rightarrow>
             (let ShouldBeHOPO =
                    hopoDecision hr (nat B) t
                      (chordBreak btr res (nat B) t (sustainCorrection btr res (nat B) t st))
              in GetTapNote (newNotes st') B (btr t res)
                   = categoryEvent (if ShouldBeHOPO then 3 else 2) (btr t res) (btr (t + len) res)
                 \<and> bPrevNoteHOPO st' ! nat B = ShouldBeHOPO)"
proof -
  define tr where "tr = nat B"
  define s2 where "s2 = chordBreak btr res tr t (sustainCorrection btr res tr t st)"
  have B: "int tr = B" "tr < 5" using assms(1,2) by (simp_all add: tr_def)
  have f2: "iLastTapRow s2 = iLastTapRow st" "length (bPrevNoteHOPO s2) = 5"
    using assms(3) by (simp_all add: s2_def chordBreak_def cbf_fields sus_fields)
  have nt: "(\<bar>iLastTapRow st - t\<bar> \<le> 1 \<and> iLastTapRow st \<noteq> - 1) = False"
    using assms(4) by simp
  show ?thesis
    using B f2 noteRecord_Some [OF assms(1,2), of btr res hr t len st]
    by (simp add: tr_def [symmetric] s2_def [symmetric] rec_fields emit_notes emit_hopo_self
          Let_def nt)
qed

text \<open>
  C4. Forced-marker inversion (text). For every note on a playable track that is not
  under a tap override, the HOPO decision is the value \<open>scan\<close> of the loop over the tracks
  (\<^verbatim>\<open>ShouldBeHOPO\<close> before the forced test), inverted exactly once when the tick lies within
  1 of the last recorded forced-marker tick and a marker has been recorded, and not
  inverted otherwise: the note is emitted as a HOPO exactly when \<open>scan \<noteq> forced\<close>, as a
  strum exactly when \<open>scan = forced\<close>, and the HOPO flag of its track is set to the same
  decision. Inversions do not accumulate: a forced marker only overwrites the last forced
  tick and leaves what the loop reads untouched, so after two markers at ticks \<open>f1\<close> and
  \<open>f2\<close> the value of the loop is the one without the markers and a note is inverted
  according to \<open>f2\<close> alone.
\<close>

theorem forced_marker_inversion:
  assumes "0 \<le> B" "B < 5" "length (bPrevNoteHOPO st) = 5"
    and "\<not> (\<bar>iLastTapRow st - t\<bar> \<le> 1 \<and> iLastTapRow st \<noteq> - 1)"
  shows "(case noteRecord btr res hr B t len st of
            None \<Rightarrow> False
          | Some st' \<Rightarrow>
              (let scan = hopoScan hr (nat B) t
                            (chordBreak btr res (nat B) t (sustainCorrection btr res (nat B) t st));
                   forced = (\<bar>iLastForcedRow st - t\<bar> \<le> 1 \<and> iLastForcedRow st \<noteq> - 1);
                   ev = GetTapNote (newNotes st') B (btr t res)
               in isHOPO ev = (scan \<noteq> forced) \<and> isStrum ev = (scan = forced)
                  \<and> bPrevNoteHOPO st' ! nat B = (scan \<noteq> forced)
                  \<and> hopoDecision hr (nat B) t
                       (chordBreak btr res (nat B) t (sustainCorrection btr res (nat B) t st))
                     = (if forced then \<not> scan else scan)))
         \<and> iLastForcedRow (forcedMarker btr res f2 (forcedMarker btr res f1 st)) = f2
         \<and> hopoScan hr (nat B) t
              (chordBreak btr res (nat B) t
                 (sustainCorrection btr res (nat B) t
                    (forcedMarker btr res f2 (forcedMarker btr res f1 st))))
            = hopoScan hr (nat B) t
                (chordBreak btr res (nat B) t (sustainCorrection btr res (nat B) t st))"
proof -
  define s2 where "s2 = chordBreak btr res (nat B) t (sustainCorrection btr res (nat B) t st)"
  have fr: "iLastForcedRow s2 = iLastForcedRow st"
    by (simp add: s2_def chordBreak_def cbf_fields sus_fields)
  have dec: "hopoDecision hr (nat B) t s2 =
        (if \<bar>iLastForcedRow st - t\<bar> \<le> 1 \<and> iLastForcedRow st \<noteq> - 1
         then \<not> hopoScan hr (nat B) t s2 else hopoScan hr (nat B) t s2)"
    by (simp add: hopoDecision_def fr Let_def)
  have step: "case noteRecord btr res hr B t len st of
           None \<Rightarrow> False
         | Some st' \<Rightarrow>
             GetTapNote (newNotes st') B (btr t res)
                   = categoryEvent (if hopoDecision hr (nat B) t s2 then 3 else 2)
                       (btr t res) (btr (t + len) res)
                 \<and> bPrevNoteHOPO st' ! nat B = hopoDecision hr (nat B) t s2"
    unfolding s2_def
    using decision_step [OF assms, where btr = btr and res = res and hr = hr and len = len,
        unfolded Let_def] .
  have first: "case noteRecord btr res hr B t len st of
            None \<Rightarrow> False
          | Some st' \<Rightarrow>
              (let scan = hopoScan hr (nat B) t s2;
                   forced = (\<bar>iLastForcedRow st - t\<bar> \<le> 1 \<and> iLastForcedRow st \<noteq> - 1);
                   ev = GetTapNote (newNotes st') B (btr t res)
               in isHOPO ev = (scan \<noteq> forced) \<and> isStrum ev = (scan = forced)
                  \<and> bPrevNoteHOPO st' ! nat B = (scan \<noteq> forced)
                  \<and> hopoDecision hr (nat B) t s2 = (if forced then \<not> scan else scan))"
  proof (cases "noteRecord btr res hr B t len st")
    case None
    then show ?thesis using step by simp
  next
    case (Some st')
    then show ?thesis
      using step dec by (auto simp add: Let_def categoryEvent_kinds)
  qed
  show ?thesis
  proof (intro conjI)
    show "case noteRecord btr res hr B t len st of
            None \<Rightarrow> False
          | Some st' \<Rightarrow>
              (let scan = hopoScan hr (nat B) t
                            (chordBreak btr res (nat B) t (sustainCorrection btr res (nat B) t st));
                   forced = (\<bar>iLastForcedRow st - t\<bar> \<le> 1 \<and> iLastForcedRow st \<noteq> - 1);
                   ev = GetTapNote (newNotes st') B (btr t res)
               in isHOPO ev = (scan \<noteq> forced) \<and> isStrum ev = (scan = forced)
                  \<and> bPrevNoteHOPO st' ! nat B = (scan \<noteq> forced)
                  \<and> hopoDecision hr (nat B) t
                       (chordBreak btr res (nat B) t (sustainCorrection btr res (nat B) t st))
                     = (if forced then \<not> scan else scan))"
      using first unfolding s2_def .
  next
    show "iLastForcedRow (forcedMarker btr res f2 (forcedMarker btr res f1 st)) = f2"
      by (simp add: forcedMarker_fields)
  next
    show "hopoScan hr (nat B) t
              (chordBreak btr res (nat B) t
                 (sustainCorrection btr res (nat B) t
                    (forcedMarker btr res f2 (forcedMarker btr res f1 st))))
            = hopoScan hr (nat B) t
                (chordBreak btr res (nat B) t (sustainCorrection btr res (nat B) t st))"
      by (simp add: scan_after_marker)
  qed
qed

theorem forced_marker_inversion_witness:
  "(case noteRecord BeatToNoteRow 192 48 0 0 0 (initChartState\<lparr>iLastForcedRow := 0\<rparr>) of
      None \<Rightarrow> False
    | Some st' \<Rightarrow>
        hopoScan 48 0 0 (chordBreak BeatToNoteRow 192 0 0
           (sustainCorrection BeatToNoteRow 192 0 0 (initChartState\<lparr>iLastForcedRow := 0\<rparr>))) = False
        \<and> isHOPO (GetTapNote (newNotes st') 0 0)
        \<and> \<not> isStrum (GetTapNote (newNotes st') 0 0)
        \<and> bPrevNoteHOPO st' ! 0)
   \<and> iLastForcedRow (forcedMarker BeatToNoteRow 192 96 (forcedMarker BeatToNoteRow 192 0
        (initChartState\<lparr>iLastForcedRow := 0\<rparr>))) = 96"
proof -
  let ?st = "initChartState\<lparr>iLastForcedRow := 0\<rparr>"
  have s1: "sustainCorrection BeatToNoteRow 192 0 0 ?st = ?st"
    by (simp add: sustainCorrection_def initChartState_def)
  have s2: "chordBreak BeatToNoteRow 192 0 0 ?st = ?st"
    by (simp add: chordBreak_def chordBreakStep_def initChartState_def upt5)
  have sc: "hopoScan 48 0 0 ?st = False"
    by (simp add: hopoScan_def initChartState_def upt5)
  have b0: "BeatToNoteRow 0 192 = 0" by (simp add: BeatToNoteRow_def)
  have le0: "(0::int) \<le> 0" and lt5: "(0::int) < 5" by simp_all
  have hyps: "length (bPrevNoteHOPO ?st) = 5"
    "\<not> (\<bar>iLastTapRow ?st - 0\<bar> \<le> 1 \<and> iLastTapRow ?st \<noteq> - 1)"
    by (simp_all add: initChartState_def)
  show ?thesis
    using forced_marker_inversion [where B = 0 and st = ?st and t = 0 and btr = BeatToNoteRow
        and res = 192 and hr = 48 and len = 0 and ?f2.0 = 96 and ?f1.0 = 0, OF le0 lt5 hyps]
    by (auto simp add: s1 s2 sc b0 Let_def split: option.splits)
qed

lemma rep5: "replicate 5 x = [x, x, x, x, x]"
  by (simp add: numeral_eq_Suc)

lemma init_eval:
  "initChartState =
     \<lparr>newNotes = emptyNoteData, iPrevNoteMark = [- 1, - 1, - 1, - 1, - 1], iPrevNoteTrack = - 1,
      iPrevNoteLength = [- 1, - 1, - 1, - 1, - 1],
      bPrevNoteHOPO = [False, False, False, False, False],
      iLastForcedRow = - 1, iLastTapRow = - 1, iLastChordRow = - 1\<rparr>"
  by (simp add: initChartState_def rep5)

lemma words_0N00: "getLineWords ''0 = N 0 0'' = [''0'', ''='', ''N'', ''0'', ''0'']"
  by code_simp

lemma words_96N10: "getLineWords ''96 = N 1 0'' = [''96'', ''='', ''N'', ''1'', ''0'']"
  by code_simp

lemma atoi_vals: "atoi ''0'' = 0" "atoi ''1'' = 1" "atoi ''96'' = 96"
  by code_simp+

lemma row_vals: "BeatToNoteRow 0 192 = 0" "BeatToNoteRow 96 192 = 24"
  by (simp_all add: BeatToNoteRow_def)

lemma scenario_line1:
  "noteRecord BeatToNoteRow 192 thr 0 0 0 initChartState =
     Some \<lparr>newNotes = SetTapNote emptyNoteData 0 0 TAP_ORIGINAL_GEM,
           iPrevNoteMark = [0, - 1, - 1, - 1, - 1], iPrevNoteTrack = 0,
           iPrevNoteLength = [0, - 1, - 1, - 1, - 1],
           bPrevNoteHOPO = [False, False, False, False, False],
           iLastForcedRow = - 1, iLastTapRow = - 1, iLastChordRow = - 1\<rparr>"
proof -
  have s1: "sustainCorrection BeatToNoteRow 192 0 0 initChartState = initChartState"
    by (simp add: sustainCorrection_def init_eval)
  have s2: "chordBreak BeatToNoteRow 192 0 0 initChartState = initChartState"
    by (simp add: chordBreak_def chordBreakStep_def init_eval upt5)
  have d: "hopoDecision thr 0 0 initChartState = False"
    by (simp add: hopoDecision_def hopoScan_def init_eval upt5)
  have s3: "emitNote BeatToNoteRow 192 thr 0 0 0 initChartState =
              initChartState\<lparr>newNotes := SetTapNote emptyNoteData 0 0 TAP_ORIGINAL_GEM\<rparr>"
    by (simp add: emitNote_def d row_vals addNote_def) (simp add: init_eval)
  show ?thesis
    by (simp add: noteRecord_def s1 s2 s3 recordNote_def) (simp add: init_eval)
qed

lemma scenario_line2:
  "noteRecord BeatToNoteRow 192 thr 1 96 0
     \<lparr>newNotes = SetTapNote emptyNoteData 0 0 TAP_ORIGINAL_GEM,
       iPrevNoteMark = [0, - 1, - 1, - 1, - 1], iPrevNoteTrack = 0,
       iPrevNoteLength = [0, - 1, - 1, - 1, - 1],
       bPrevNoteHOPO = [False, False, False, False, False],
       iLastForcedRow = - 1, iLastTapRow = - 1, iLastChordRow = - 1\<rparr> =
     Some \<lparr>newNotes = SetTapNote (SetTapNote emptyNoteData 0 0 TAP_ORIGINAL_GEM) 1 24
                        (if 95 \<le> thr then TAP_ORIGINAL_HOPO else TAP_ORIGINAL_GEM),
           iPrevNoteMark = [0, 96, - 1, - 1, - 1], iPrevNoteTrack = 1,
           iPrevNoteLength = [0, 0, - 1, - 1, - 1],
           bPrevNoteHOPO = [False, 95 \<le> thr, False, False, False],
           iLastForcedRow = - 1, iLastTapRow = - 1, iLastChordRow = - 1\<rparr>"
    (is "noteRecord _ _ _ _ _ _ ?st = _")
proof -
  have s1: "sustainCorrection BeatToNoteRow 192 (Suc 0) 96 ?st = ?st"
    by (simp add: sustainCorrection_def)
  have s2: "chordBreak BeatToNoteRow 192 (Suc 0) 96 ?st = ?st"
    by (simp add: chordBreak_def chordBreakStep_def upt5)
  have d: "hopoDecision thr (Suc 0) 96 ?st = (95 \<le> thr)"
    by (simp add: hopoDecision_def hopoScan_def upt5)
  show ?thesis
    by (simp add: noteRecord_def s1 s2 emitNote_def d row_vals addNote_def recordNote_def)
qed

lemma scenario_parse:
  "parseNoteSection BeatToNoteRow [''0 = N 0 0'', ''96 = N 1 0''] 192 thr =
     Some (SetTapNote (SetTapNote emptyNoteData 0 0 TAP_ORIGINAL_GEM) 1 24
             (if 95 \<le> thr then TAP_ORIGINAL_HOPO else TAP_ORIGINAL_GEM))"
  by (simp add: parseNoteSection_def words_0N00 words_96N10 parseNoteLine_def atoi_vals
        scenario_line1 scenario_line2)


text \<open>
  C8. Concrete text scenario, as amended. Parsing the note-section lines \<^verbatim>\<open>0 = N 0 0\<close> and
  \<^verbatim>\<open>96 = N 1 0\<close> with resolution 192 succeeds and places the second note on track 1 at
  the row of tick 96 (row 24). The gap of 96 ticks counts as within the HOPO threshold
  exactly when \<open>96 - 1 \<le> threshold\<close>: with the threshold 48 (and any threshold below 95)
  the note is a strum (a gem), with a threshold of at least 95 it is a HOPO.
\<close>

theorem text_scenario_two_notes:
  "case parseNoteSection BeatToNoteRow [''0 = N 0 0'', ''96 = N 1 0''] 192 iHopoResolution of
     None \<Rightarrow> False
   | Some notes \<Rightarrow>
       BeatToNoteRow 96 192 = 24
       \<and> GetTapNote notes 1 (BeatToNoteRow 96 192)
           = (if 95 \<le> iHopoResolution then TAP_ORIGINAL_HOPO else TAP_ORIGINAL_GEM)
       \<and> isHOPO (GetTapNote notes 1 (BeatToNoteRow 96 192)) = (95 \<le> iHopoResolution)
       \<and> isStrum (GetTapNote notes 1 (BeatToNoteRow 96 192)) = (iHopoResolution < 95)"
  by (simp add: scenario_parse row_vals Get_Set isHOPO_def isStrum_def tap_consts)

theorem text_scenario_two_notes_witness:
  "case parseNoteSection BeatToNoteRow [''0 = N 0 0'', ''96 = N 1 0''] 192 95 of
     None \<Rightarrow> False
   | Some notes \<Rightarrow>
       GetTapNote notes 1 24 = TAP_ORIGINAL_HOPO \<and> isHOPO (GetTapNote notes 1 24)"
  using text_scenario_two_notes [of 95]
  by (auto split: option.splits)

theorem text_scenario_two_notes_counterexample:
  "parseNoteSection BeatToNoteRow [''0 = N 0 0'', ''96 = N 1 0''] 192 48
     = Some (SetTapNote (SetTapNote emptyNoteData 0 0 TAP_ORIGINAL_GEM) 1 24 TAP_ORIGINAL_GEM)
   \<and> BeatToNoteRow 96 192 = 24
   \<and> GetTapNote (SetTapNote (SetTapNote emptyNoteData 0 0 TAP_ORIGINAL_GEM) 1 24 TAP_ORIGINAL_GEM)
        1 24 = TAP_ORIGINAL_GEM
   \<and> \<not> isHOPO TAP_ORIGINAL_GEM \<and> isStrum TAP_ORIGINAL_GEM"
  by (simp add: scenario_parse row_vals Get_Set isHOPO_def isStrum_def tap_consts)

lemma c_div_pos: "0 \<le> a \<Longrightarrow> 0 < b \<Longrightarrow> c_div a b = a div b"
  by (cases "a = 0") (simp_all add: c_div_def)

lemma c_div_8_pos: "(0 < c_div r 8) = (8 \<le> r)"
proof (cases "0 \<le> r")
  case True
  then have "c_div r 8 = r div 8" by (simp add: c_div_pos)
  then show ?thesis using True by (simp add: pos_imp_zdiv_pos_iff)
next
  case False
  then have "c_div r 8 = - (\<bar>r\<bar> div 8)" by (simp add: c_div_def)
  moreover have "0 \<le> \<bar>r\<bar> div 8" by simp
  ultimately show ?thesis using False by linarith
qed

lemma BeatToNoteRow_bounds:
  "0 < r \<Longrightarrow> (48 * a) div r \<le> BeatToNoteRow a r \<and> BeatToNoteRow a r \<le> (48 * a) div r + 1"
  by (simp add: BeatToNoteRow_def Let_def)

lemma BeatToNoteRow_mono:
  assumes "0 < r" "a \<le> b"
  shows "BeatToNoteRow a r \<le> BeatToNoteRow b r"
proof (cases "(48 * a) div r < (48 * b) div r")
  case True
  then show ?thesis
    using BeatToNoteRow_bounds [OF assms(1), of a] BeatToNoteRow_bounds [OF assms(1), of b]
    by linarith
next
  case False
  have "(48 * a) div r \<le> (48 * b) div r"
    using assms by (simp add: zdiv_mono1)
  with False have eq: "(48 * a) div r = (48 * b) div r" by simp
  have "48 * a = r * ((48 * a) div r) + (48 * a) mod r"
    and "48 * b = r * ((48 * b) div r) + (48 * b) mod r"
    by simp_all
  with eq assms(2) have le: "(48 * a) mod r \<le> (48 * b) mod r"
    by (metis add_le_cancel_left mult_le_cancel_left_pos zero_less_numeral)
  show ?thesis
    using le by (simp add: BeatToNoteRow_def Let_def eq)
qed

lemma BeatToNoteRow_strict:
  assumes "0 < r" "48 * a + 2 * r \<le> 48 * b"
  shows "BeatToNoteRow a r < BeatToNoteRow b r"
proof -
  have "(48 * a + 2 * r) div r \<le> (48 * b) div r"
    by (rule zdiv_mono1 [OF assms(2) assms(1)])
  moreover have "(48 * a + 2 * r) div r = (48 * a) div r + 2"
    using assms(1) by simp
  ultimately show ?thesis
    using BeatToNoteRow_bounds [OF assms(1), of a] BeatToNoteRow_bounds [OF assms(1), of b]
    by linarith
qed

lemma sus_hit:
  assumes "m \<le> iPrevNoteMark st ! tr + iPrevNoteLength st ! tr + 1"
    and "tr < length (iPrevNoteLength st)"
  shows "newNotes (sustainCorrection btr res tr m st) =
           addNote (SetTapNote (newNotes st) (int tr) (btr (iPrevNoteMark st ! tr) res) TAP_EMPTY)
             (int tr) (btr (iPrevNoteMark st ! tr) res)
             (btr (iPrevNoteMark st ! tr + (m - iPrevNoteMark st ! tr - c_div res 8)) res)
             (if bPrevNoteHOPO st ! tr then 3 else 2)"
    and "iPrevNoteLength (sustainCorrection btr res tr m st) ! tr
           = m - iPrevNoteMark st ! tr - c_div res 8"
  using assms by (simp_all add: sustainCorrection_def Let_def)

lemma noteRecord_notes_other_row:
  assumes "0 \<le> B" "B < 5" "r \<noteq> btr t res"
  shows "case noteRecord btr res hr B t len st of
           None \<Rightarrow> False
         | Some st' \<Rightarrow>
             GetTapNote (newNotes st') B r
               = GetTapNote (newNotes (sustainCorrection btr res (nat B) t st)) B r"
proof -
  have B: "int (nat B) = B" using assms(1) by simp
  show ?thesis
    using assms(1,3) cbf_notes_self [of btr res "nat B" t "[0..<5]"
        "sustainCorrection btr res (nat B) t st" r]
    by (simp add: noteRecord_Some [OF assms(1,2)] rec_fields emit_notes chordBreak_def B)
qed

text \<open>
  C1. Sustain-overlap correction, as amended. For every note record at tick \<open>t2\<close> on a
  playable track \<open>B\<close> whose previous note, at tick \<open>t1\<close> with stored length \<open>len1\<close>,
  satisfies \<open>t2 \<le> t1 + len1 + 1\<close>: the event at the previous note's row is cleared and
  the note is emitted again in its stored category (HOPO when the HOPO flag of the track
  is set, strum otherwise) with the corrected length \<open>t2 - t1 - resolution/8\<close>, the
  division being the integer division of the source. Its end tick \<open>t1 + (t2 - t1 -
  resolution/8)\<close> is strictly less than \<open>t2\<close> exactly when \<open>resolution \<ge> 8\<close>; for a positive
  resolution below 8 the quotient is 0 and the end tick is \<open>t2\<close> itself. When the corrected
  length is zero or negative and the tick-to-row conversion is monotone, the note emitted
  again is not held. The event is still there after the whole record is processed, unless
  the new note lands on the same row.
\<close>

theorem sustain_overlap_correction:
  assumes "0 \<le> B" "B < 5" "length (iPrevNoteLength st) = 5"
    and "t2 \<le> iPrevNoteMark st ! nat B + iPrevNoteLength st ! nat B + 1"
  shows "let t1 = iPrevNoteMark st ! nat B;
             len' = t2 - t1 - c_div resolution 8;
             cat = (if bPrevNoteHOPO st ! nat B then 3 else 2);
             st1 = sustainCorrection btr resolution (nat B) t2 st;
             startRow = btr t1 resolution;
             endRow = btr (t1 + len') resolution
         in newNotes st1 =
              addNote (SetTapNote (newNotes st) B startRow TAP_EMPTY) B startRow endRow cat
            \<and> iPrevNoteLength st1 ! nat B = len'
            \<and> GetTapNote (newNotes st1) B startRow = categoryEvent cat startRow endRow
            \<and> (t1 + len' < t2) = (8 \<le> resolution)
            \<and> (0 < resolution \<longrightarrow> t1 + len' \<le> t2)
            \<and> (len' \<le> 0 \<and> (\<forall>a b. a \<le> b \<longrightarrow> btr a resolution \<le> btr b resolution)
                 \<longrightarrow> \<not> isHeld (GetTapNote (newNotes st1) B startRow))
            \<and> (case noteRecord btr resolution iHopoResolution B t2 len st of
                  None \<Rightarrow> False
                | Some st' \<Rightarrow>
                    startRow \<noteq> btr t2 resolution \<longrightarrow>
                    GetTapNote (newNotes st') B startRow = categoryEvent cat startRow endRow)"
proof -
  define tr where "tr = nat B"
  define t1 where "t1 = iPrevNoteMark st ! tr"
  define len' where "len' = t2 - t1 - c_div resolution 8"
  define cat :: int where "cat = (if bPrevNoteHOPO st ! tr then 3 else 2)"
  define st1 where "st1 = sustainCorrection btr resolution tr t2 st"
  define startRow where "startRow = btr t1 resolution"
  define endRow where "endRow = btr (t1 + len') resolution"
  have B: "int tr = B" "tr < length (iPrevNoteLength st)"
    using assms(1,2,3) by (simp_all add: tr_def)
  have c: "cat \<in> {1, 2, 3}" by (simp add: cat_def)
  have hyp: "t2 \<le> iPrevNoteMark st ! tr + iPrevNoteLength st ! tr + 1"
    using assms(4) by (simp add: tr_def)
  have n1: "newNotes st1 =
              addNote (SetTapNote (newNotes st) B startRow TAP_EMPTY) B startRow endRow cat"
    using sus_hit(1) [OF hyp B(2), of btr resolution] B(1)
    by (simp add: st1_def startRow_def endRow_def cat_def len'_def t1_def)
  have l1: "iPrevNoteLength st1 ! tr = len'"
    using sus_hit(2) [OF hyp B(2), of btr resolution]
    by (simp add: st1_def len'_def t1_def)
  have ev: "GetTapNote (newNotes st1) B startRow = categoryEvent cat startRow endRow"
    using c by (simp add: n1 Get_addNote)
  have lt: "(t1 + len' < t2) = (8 \<le> resolution)"
    using c_div_8_pos [of resolution] by (auto simp add: len'_def)
  have le: "0 < resolution \<longrightarrow> t1 + len' \<le> t2"
    by (simp add: len'_def c_div_pos pos_imp_zdiv_nonneg_iff)
  have nh: "len' \<le> 0 \<and> (\<forall>a b. a \<le> b \<longrightarrow> btr a resolution \<le> btr b resolution)
              \<longrightarrow> \<not> isHeld (GetTapNote (newNotes st1) B startRow)"
  proof
    assume h: "len' \<le> 0 \<and> (\<forall>a b. a \<le> b \<longrightarrow> btr a resolution \<le> btr b resolution)"
    then have "btr (t1 + len') resolution \<le> btr t1 resolution" by simp
    then have "\<not> endRow > startRow" by (simp add: startRow_def endRow_def)
    then show "\<not> isHeld (GetTapNote (newNotes st1) B startRow)"
      using c by (simp add: ev categoryEvent_held)
  qed
  have full: "case noteRecord btr resolution iHopoResolution B t2 len st of
                  None \<Rightarrow> False
                | Some st' \<Rightarrow>
                    startRow \<noteq> btr t2 resolution \<longrightarrow>
                    GetTapNote (newNotes st') B startRow = categoryEvent cat startRow endRow"
  proof (cases "startRow = btr t2 resolution")
    case True
    then show ?thesis by (simp add: noteRecord_Some [OF assms(1,2)])
  next
    case False
    then show ?thesis
      using noteRecord_notes_other_row [where btr = btr and res = resolution and t = t2
          and r = startRow and hr = iHopoResolution and len = len and st = st,
          OF assms(1,2) False] ev
      by (auto simp add: st1_def tr_def split: option.splits)
  qed
  show ?thesis
    unfolding Let_def
    using n1 l1 ev lt le nh full
    unfolding tr_def t1_def len'_def cat_def st1_def startRow_def endRow_def
    by (intro conjI)
qed


theorem sustain_overlap_correction_witness:
  "GetTapNote
     (newNotes (sustainCorrection BeatToNoteRow 192 0 192
        (initChartState
           \<lparr>newNotes := AddHoldNote emptyNoteData 0 0 48 TAP_ORIGINAL_GEM_HOLD,
            iPrevNoteMark := [0, - 1, - 1, - 1, - 1], iPrevNoteTrack := 0,
            iPrevNoteLength := [192, - 1, - 1, - 1, - 1]\<rparr>))) 0 0
     = TAP_ORIGINAL_GEM_HOLD\<lparr>iDuration := 42\<rparr>
   \<and> iPrevNoteLength (sustainCorrection BeatToNoteRow 192 0 192
        (initChartState
           \<lparr>newNotes := AddHoldNote emptyNoteData 0 0 48 TAP_ORIGINAL_GEM_HOLD,
            iPrevNoteMark := [0, - 1, - 1, - 1, - 1], iPrevNoteTrack := 0,
            iPrevNoteLength := [192, - 1, - 1, - 1, - 1]\<rparr>)) ! 0 = 168
   \<and> (0::int) + 168 < 192
   \<and> (case noteRecord BeatToNoteRow 192 48 0 192 0
          (initChartState
             \<lparr>newNotes := AddHoldNote emptyNoteData 0 0 48 TAP_ORIGINAL_GEM_HOLD,
              iPrevNoteMark := [0, - 1, - 1, - 1, - 1], iPrevNoteTrack := 0,
              iPrevNoteLength := [192, - 1, - 1, - 1, - 1]\<rparr>) of
         None \<Rightarrow> False
       | Some st' \<Rightarrow> GetTapNote (newNotes st') 0 0 = TAP_ORIGINAL_GEM_HOLD\<lparr>iDuration := 42\<rparr>)
   \<and> \<not> isHeld (GetTapNote
        (newNotes (sustainCorrection BeatToNoteRow 192 0 1
           (initChartState
              \<lparr>newNotes := SetTapNote emptyNoteData 0 0 TAP_ORIGINAL_GEM,
               iPrevNoteMark := [0, - 1, - 1, - 1, - 1], iPrevNoteTrack := 0,
               iPrevNoteLength := [0, - 1, - 1, - 1, - 1]\<rparr>))) 0 0)"
proof -
  let ?a = "initChartState
           \<lparr>newNotes := AddHoldNote emptyNoteData 0 0 48 TAP_ORIGINAL_GEM_HOLD,
            iPrevNoteMark := [0, - 1, - 1, - 1, - 1], iPrevNoteTrack := 0,
            iPrevNoteLength := [192, - 1, - 1, - 1, - 1]\<rparr>"
  let ?b = "initChartState
              \<lparr>newNotes := SetTapNote emptyNoteData 0 0 TAP_ORIGINAL_GEM,
               iPrevNoteMark := [0, - 1, - 1, - 1, - 1], iPrevNoteTrack := 0,
               iPrevNoteLength := [0, - 1, - 1, - 1, - 1]\<rparr>"
  have le0: "(0::int) \<le> 0" and lt5: "(0::int) < 5" by simp_all
  have ha: "length (iPrevNoteLength ?a) = 5"
    "192 \<le> iPrevNoteMark ?a ! nat 0 + iPrevNoteLength ?a ! nat 0 + 1"
    by simp_all
  have hb: "length (iPrevNoteLength ?b) = 5"
    "1 \<le> iPrevNoteMark ?b ! nat 0 + iPrevNoteLength ?b ! nat 0 + 1"
    by simp_all
  have ih: "bPrevNoteHOPO initChartState = [False, False, False, False, False]"
    by (simp add: init_eval)
  have cd: "c_div 192 8 = 24" by (simp add: c_div_def)
  have rows: "BeatToNoteRow 0 192 = 0" "BeatToNoteRow 168 192 = 42" "BeatToNoteRow 192 192 = 48"
    by (simp_all add: BeatToNoteRow_def)
  have mono: "\<forall>a b. a \<le> b \<longrightarrow> BeatToNoteRow a 192 \<le> BeatToNoteRow b 192"
    by (simp add: BeatToNoteRow_mono)
  have A: "GetTapNote (newNotes (sustainCorrection BeatToNoteRow 192 0 192 ?a)) 0 0
             = categoryEvent 2 0 42
           \<and> iPrevNoteLength (sustainCorrection BeatToNoteRow 192 0 192 ?a) ! 0 = 168
           \<and> (case noteRecord BeatToNoteRow 192 48 0 192 0 ?a of
                 None \<Rightarrow> False
               | Some st' \<Rightarrow> GetTapNote (newNotes st') 0 0 = categoryEvent 2 0 42)"
    using sustain_overlap_correction [where B = 0 and st = ?a and ?t2.0 = 192
        and btr = BeatToNoteRow and resolution = 192 and iHopoResolution = 48 and len = 0,
        OF le0 lt5 ha]
    by (auto simp add: Let_def ih cd rows split: option.splits)
  have B: "\<not> isHeld (GetTapNote (newNotes (sustainCorrection BeatToNoteRow 192 0 1 ?b)) 0 0)"
    using sustain_overlap_correction [where B = 0 and st = ?b and ?t2.0 = 1
        and btr = BeatToNoteRow and resolution = 192 and iHopoResolution = 48 and len = 0,
        OF le0 lt5 hb] mono
    by (auto simp add: Let_def ih cd rows(1))
  have ce: "categoryEvent 2 0 42 = TAP_ORIGINAL_GEM_HOLD\<lparr>iDuration := 42\<rparr>"
    by (simp add: categoryEvent_def)
  show ?thesis
    using A B by (auto simp add: ce split: option.splits)
qed

theorem sustain_overlap_correction_counterexample:
  "noteRecord BeatToNoteRow 4 1 0 0 10 initChartState
     = Some (initChartState
               \<lparr>newNotes := AddHoldNote emptyNoteData 0 0 120 TAP_ORIGINAL_GEM_HOLD,
                iPrevNoteMark := [0, - 1, - 1, - 1, - 1], iPrevNoteTrack := 0,
                iPrevNoteLength := [10, - 1, - 1, - 1, - 1]\<rparr>)
   \<and> (8::int) \<le> 0 + 10 + 1
   \<and> iPrevNoteLength (sustainCorrection BeatToNoteRow 4 0 8
        (initChartState
           \<lparr>newNotes := AddHoldNote emptyNoteData 0 0 120 TAP_ORIGINAL_GEM_HOLD,
            iPrevNoteMark := [0, - 1, - 1, - 1, - 1], iPrevNoteTrack := 0,
            iPrevNoteLength := [10, - 1, - 1, - 1, - 1]\<rparr>)) ! 0 = 8
   \<and> \<not> ((0::int) + 8 < 8)
   \<and> GetTapNote (newNotes (sustainCorrection BeatToNoteRow 4 0 8
        (initChartState
           \<lparr>newNotes := AddHoldNote emptyNoteData 0 0 120 TAP_ORIGINAL_GEM_HOLD,
            iPrevNoteMark := [0, - 1, - 1, - 1, - 1], iPrevNoteTrack := 0,
            iPrevNoteLength := [10, - 1, - 1, - 1, - 1]\<rparr>))) 0 0
       = TAP_ORIGINAL_GEM_HOLD\<lparr>iDuration := 96\<rparr>
   \<and> BeatToNoteRow 8 4 = 96"
proof -
  have rows: "BeatToNoteRow 0 4 = 0" "BeatToNoteRow 10 4 = 120" "BeatToNoteRow 8 4 = 96"
    by (simp_all add: BeatToNoteRow_def)
  have cd: "c_div 4 8 = 0" by (simp add: c_div_def)
  have s1: "sustainCorrection BeatToNoteRow 4 0 0 initChartState = initChartState"
    by (simp add: sustainCorrection_def init_eval)
  have s2: "chordBreak BeatToNoteRow 4 0 0 initChartState = initChartState"
    by (simp add: chordBreak_def chordBreakStep_def init_eval upt5)
  have d: "hopoDecision 1 0 0 initChartState = False"
    by (simp add: hopoDecision_def hopoScan_def init_eval upt5)
  have s3: "emitNote BeatToNoteRow 4 1 0 0 10 initChartState =
              initChartState\<lparr>newNotes := AddHoldNote emptyNoteData 0 0 120 TAP_ORIGINAL_GEM_HOLD\<rparr>"
    by (simp add: emitNote_def d rows addNote_def) (simp add: init_eval)
  have first: "noteRecord BeatToNoteRow 4 1 0 0 10 initChartState
     = Some (initChartState
               \<lparr>newNotes := AddHoldNote emptyNoteData 0 0 120 TAP_ORIGINAL_GEM_HOLD,
                iPrevNoteMark := [0, - 1, - 1, - 1, - 1], iPrevNoteTrack := 0,
                iPrevNoteLength := [10, - 1, - 1, - 1, - 1]\<rparr>)"
    by (simp add: noteRecord_def s1 s2 s3 recordNote_def) (simp add: init_eval)
  show ?thesis
    by (simp add: first)
       (simp add: sustainCorrection_def init_eval cd rows addNote_def Get_AddHold Get_Set
          tap_consts Let_def)
qed

lemma rowScan_Suc: "rowScan taps (Suc n) = rowScanStep taps n (rowScan taps n)"
  by (simp add: rowScan_def)

lemma rowScan_snd_bound: "- 1 \<le> snd (rowScan taps n) \<and> snd (rowScan taps n) < int n"
proof (induction n)
  case 0
  then show ?case by (simp add: rowScan_def)
next
  case (Suc n)
  then show ?case by (auto simp add: rowScan_Suc rowScanStep_def)
qed

lemma rowScan_fst: "fst (rowScan taps n) = (\<exists>i<n. taps ! i \<noteq> TAP_EMPTY)"
proof (induction n)
  case 0
  then show ?case by (simp add: rowScan_def)
next
  case (Suc n)
  then show ?case
    by (auto simp add: rowScan_Suc rowScanStep_def less_Suc_eq)
qed

lemma rowScan_snd_highest:
  "h < n \<Longrightarrow> taps ! h \<noteq> TAP_EMPTY \<Longrightarrow> (\<forall>i. h < i \<and> i < n \<longrightarrow> taps ! i = TAP_EMPTY) \<Longrightarrow>
   snd (rowScan taps n) = int h"
proof (induction n)
  case 0
  then show ?case by simp
next
  case (Suc n)
  show ?case
  proof (cases "h = n")
    case True
    then show ?thesis
      using Suc.prems(2) rowScan_snd_bound [of taps n]
      by (simp add: rowScan_Suc rowScanStep_def)
  next
    case False
    then have hn: "h < n" using Suc.prems(1) by simp
    have e: "taps ! n = TAP_EMPTY" using Suc.prems(3) hn by simp
    have "snd (rowScan taps n) = int h"
      using Suc.IH [OF hn Suc.prems(2)] Suc.prems(3) by simp
    then show ?thesis by (simp add: rowScan_Suc rowScanStep_def e)
  qed
qed

lemma fhl_other:
  "t \<notin> int ` set ks \<or> r \<noteq> startRow \<Longrightarrow>
   GetTapNote (forcedHopoLoop taps startRow ks f nd) t r = GetTapNote nd t r"
proof (induction ks arbitrary: f nd)
  case Nil
  then show ?case by simp
next
  case (Cons k ks)
  then have "t \<notin> int ` set ks \<or> r \<noteq> startRow" and "t \<noteq> int k \<or> r \<noteq> startRow" by auto
  then show ?case
    using Cons.IH by (auto simp add: Get_Set Get_placeNote)
qed

lemma fhl_found:
  "distinct ks \<Longrightarrow> i \<in> set ks \<Longrightarrow>
   GetTapNote (forcedHopoLoop taps startRow ks True nd) (int i) startRow
     = (if taps ! i = TAP_EMPTY then GetTapNote nd (int i) startRow else TAP_EMPTY)"
proof (induction ks arbitrary: nd)
  case Nil
  then show ?case by simp
next
  case (Cons k ks)
  show ?case
  proof (cases "i = k")
    case True
    then have "int i \<notin> int ` set ks" using Cons.prems(1) by auto
    then show ?thesis
      using True by (simp add: fhl_other Get_Set)
  next
    case False
    then have "i \<in> set ks" "distinct ks" using Cons.prems by auto
    then show ?thesis
      using Cons.IH False by (simp add: Get_Set)
  qed
qed

lemma fhl_skip:
  "\<forall>k\<in>set pre. taps ! k = TAP_EMPTY \<Longrightarrow>
   forcedHopoLoop taps startRow (pre @ ks) f nd = forcedHopoLoop taps startRow ks f nd"
  by (induction pre) simp_all

lemma fhl_first:
  assumes "distinct (pre @ h # post)" "\<forall>k\<in>set pre. taps ! k = TAP_EMPTY" "taps ! h \<noteq> TAP_EMPTY"
  shows "GetTapNote (forcedHopoLoop taps startRow (pre @ h # post) False nd) (int h) startRow
           = categoryEvent 3 startRow (startRow + iDuration (taps ! h))"
    and "i \<in> set post \<Longrightarrow>
         GetTapNote (forcedHopoLoop taps startRow (pre @ h # post) False nd) (int i) startRow
           = (if taps ! i = TAP_EMPTY then GetTapNote nd (int i) startRow else TAP_EMPTY)"
    and "i \<in> set pre \<Longrightarrow>
         GetTapNote (forcedHopoLoop taps startRow (pre @ h # post) False nd) (int i) startRow
           = GetTapNote nd (int i) startRow"
proof -
  let ?n1 = "placeNote nd (int h) startRow (startRow + iDuration (taps ! h)) 3"
  have e: "forcedHopoLoop taps startRow (pre @ h # post) False nd
             = forcedHopoLoop taps startRow post True ?n1"
    using assms(2,3) by (simp add: fhl_skip)
  have hp: "int h \<notin> int ` set post" and d: "distinct post" using assms(1) by auto
  show "GetTapNote (forcedHopoLoop taps startRow (pre @ h # post) False nd) (int h) startRow
           = categoryEvent 3 startRow (startRow + iDuration (taps ! h))"
    using hp by (simp add: e fhl_other Get_placeNote)
  show "GetTapNote (forcedHopoLoop taps startRow (pre @ h # post) False nd) (int i) startRow
           = (if taps ! i = TAP_EMPTY then GetTapNote nd (int i) startRow else TAP_EMPTY)"
    if "i \<in> set post"
  proof -
    have "i \<noteq> h" using that assms(1) by auto
    then show ?thesis using that d by (simp add: e fhl_found Get_placeNote)
  qed
  show "GetTapNote (forcedHopoLoop taps startRow (pre @ h # post) False nd) (int i) startRow
           = GetTapNote nd (int i) startRow"
    if "i \<in> set pre"
  proof -
    have "i \<noteq> h" "int i \<notin> int ` set post" using that assms(1) by auto
    then show ?thesis by (simp add: e fhl_other Get_placeNote)
  qed
qed

lemma rev_upt_split:
  assumes "h < n"
  shows "rev [0..<n] = rev [Suc h..<n] @ h # rev [0..<h]"
proof -
  have "[0..<h + (n - h)] = [0..<h] @ [h..<h + (n - h)]"
    by (rule upt_add_eq_append) simp
  with assms have "[0..<n] = [0..<h] @ h # [Suc h..<n]"
    by (simp add: upt_conv_Cons)
  then show ?thesis by simp
qed

lemma addGHRBNote_forced_hopo_marker:
  assumes "(col0 = 5 \<and> gd_iCols gd = 6) \<or> (col0 = 7 \<and> gd_iCols gd = 7)"
  shows "addGHRBNote btr nd col0 start end gd =
           Some (if fst (rowScan (rowTaps btr nd start gd) (nat (gd_iCols gd)))
                 then forcedHopoLoop (rowTaps btr nd start gd)
                        (btr start (gd_iResolution gd)) (rev [0..<nat (gd_iCols gd)]) False nd
                 else nd,
                 gd\<lparr>gd_iLastForcedHOPO := start\<rparr>)"
proof -
  from assms consider "col0 = 5" "gd_iCols gd = 6" | "col0 = 7" "gd_iCols gd = 7" by auto
  then show ?thesis
  proof cases
    case 1
    then show ?thesis by (simp add: addGHRBNote_def Let_def)
  next
    case 2
    then show ?thesis by (simp add: addGHRBNote_def Let_def)
  qed
qed

text \<open>
  C6. MIDI forced-HOPO marker with chord. A hit on the forced-HOPO marker lane (column 5
  of a five-fret chart, column 7 of a six-fret chart) always returns, and records the
  marker's start tick as the last forced-HOPO tick, whether or not a note is on the row.
  When at least one lane has a note at the start row and \<open>h\<close> is the highest-numbered
  occupied lane, afterwards lane \<open>h\<close> holds the HOPO event placed from its old duration,
  and every other lane reads as empty at that row. When no lane has a note there, the note
  data is unchanged.
\<close>

theorem forced_hopo_marker_chord:
  assumes "(col0 = 5 \<and> gd_iCols gd = 6) \<or> (col0 = 7 \<and> gd_iCols gd = 7)"
  shows "case addGHRBNote btr nd col0 start end gd of
           None \<Rightarrow> False
         | Some (nd', gd') \<Rightarrow>
             gd' = gd\<lparr>gd_iLastForcedHOPO := start\<rparr>
             \<and> (\<forall>h. h < nat (gd_iCols gd)
                    \<and> GetTapNote nd (int h) (btr start (gd_iResolution gd)) \<noteq> TAP_EMPTY
                    \<and> (\<forall>i. h < i \<and> i < nat (gd_iCols gd) \<longrightarrow>
                           GetTapNote nd (int i) (btr start (gd_iResolution gd)) = TAP_EMPTY)
                  \<longrightarrow> GetTapNote nd' (int h) (btr start (gd_iResolution gd))
                        = categoryEvent 3 (btr start (gd_iResolution gd))
                            (btr start (gd_iResolution gd)
                             + iDuration (GetTapNote nd (int h) (btr start (gd_iResolution gd))))
                      \<and> isHOPO (GetTapNote nd' (int h) (btr start (gd_iResolution gd)))
                      \<and> (\<forall>i. i < nat (gd_iCols gd) \<and> i \<noteq> h \<longrightarrow>
                             GetTapNote nd' (int i) (btr start (gd_iResolution gd)) = TAP_EMPTY))
             \<and> ((\<forall>i. i < nat (gd_iCols gd) \<longrightarrow>
                     GetTapNote nd (int i) (btr start (gd_iResolution gd)) = TAP_EMPTY)
                  \<longrightarrow> nd' = nd)"
proof -
  define n where "n = nat (gd_iCols gd)"
  define row where "row = btr start (gd_iResolution gd)"
  define taps where "taps = rowTaps btr nd start gd"
  define nd' where "nd' = (if fst (rowScan taps n)
                           then forcedHopoLoop taps row (rev [0..<n]) False nd else nd)"
  have res: "addGHRBNote btr nd col0 start end gd = Some (nd', gd\<lparr>gd_iLastForcedHOPO := start\<rparr>)"
    using addGHRBNote_forced_hopo_marker [OF assms, of btr nd start "end"]
    by (simp add: nd'_def taps_def row_def n_def)
  have tp: "\<And>i. i < n \<Longrightarrow> taps ! i = GetTapNote nd (int i) row"
    by (simp add: taps_def rowTaps_def n_def row_def)
  have chord: "GetTapNote nd' (int h) row = categoryEvent 3 row (row + iDuration (GetTapNote nd (int h) row))
               \<and> isHOPO (GetTapNote nd' (int h) row)
               \<and> (\<forall>i. i < n \<and> i \<noteq> h \<longrightarrow> GetTapNote nd' (int i) row = TAP_EMPTY)"
    if h: "h < n" "GetTapNote nd (int h) row \<noteq> TAP_EMPTY"
      "\<forall>i. h < i \<and> i < n \<longrightarrow> GetTapNote nd (int i) row = TAP_EMPTY" for h
  proof -
    have "\<exists>i<n. taps ! i \<noteq> TAP_EMPTY" using h(1,2) tp by auto
    then have nd': "nd' = forcedHopoLoop taps row (rev [Suc h..<n] @ h # rev [0..<h]) False nd"
      using rev_upt_split [OF h(1)] by (simp add: nd'_def rowScan_fst)
    have d: "distinct (rev [Suc h..<n] @ h # rev [0..<h])"
      using rev_upt_split [OF h(1)] by (metis distinct_rev distinct_upt)
    have pre: "\<forall>k\<in>set (rev [Suc h..<n]). taps ! k = TAP_EMPTY"
      using h(3) tp by auto
    have th: "taps ! h \<noteq> TAP_EMPTY" using h(1,2) tp by simp
    have a: "GetTapNote nd' (int h) row
               = categoryEvent 3 row (row + iDuration (GetTapNote nd (int h) row))"
      using fhl_first(1) [OF d pre th, of row nd] tp [OF h(1)] by (simp add: nd')
    have b: "GetTapNote nd' (int i) row = TAP_EMPTY" if i: "i < n" "i \<noteq> h" for i
    proof (cases "i < h")
      case True
      then have "i \<in> set (rev [0..<h])" by simp
      then show ?thesis
        using fhl_first(2) [OF d pre th, of i row nd] tp [OF i(1)] by (simp add: nd')
    next
      case False
      then have "i \<in> set (rev [Suc h..<n])" and "h < i" using i by auto
      then show ?thesis
        using fhl_first(3) [OF d pre th, of i row nd] h(3) i(1) by (simp add: nd')
    qed
    show ?thesis using a b by (simp add: categoryEvent_kinds)
  qed
  have empty: "nd' = nd" if "\<forall>i. i < n \<longrightarrow> GetTapNote nd (int i) row = TAP_EMPTY"
  proof -
    have "\<not> (\<exists>i<n. taps ! i \<noteq> TAP_EMPTY)" using that tp by auto
    then have "\<not> fst (rowScan taps n)" by (auto simp add: rowScan_fst)
    then show ?thesis by (simp add: nd'_def)
  qed
  have chordA: "\<forall>h. h < n \<and> GetTapNote nd (int h) row \<noteq> TAP_EMPTY
                    \<and> (\<forall>i. h < i \<and> i < n \<longrightarrow> GetTapNote nd (int i) row = TAP_EMPTY)
                  \<longrightarrow> GetTapNote nd' (int h) row
                        = categoryEvent 3 row (row + iDuration (GetTapNote nd (int h) row))
                      \<and> isHOPO (GetTapNote nd' (int h) row)
                      \<and> (\<forall>i. i < n \<and> i \<noteq> h \<longrightarrow> GetTapNote nd' (int i) row = TAP_EMPTY)"
    using chord by blast
  have emptyA: "(\<forall>i. i < n \<longrightarrow> GetTapNote nd (int i) row = TAP_EMPTY) \<longrightarrow> nd' = nd"
    using empty by blast
  show ?thesis
    unfolding res option.case prod.case
    using chordA emptyA unfolding n_def row_def
    by blast
qed


theorem forced_hopo_marker_chord_witness:
  "case addGHRBNote BeatToNoteRow
          (SetTapNote (SetTapNote emptyNoteData 0 0 TAP_ORIGINAL_GEM) 2 0 TAP_ORIGINAL_GEM)
          5 0 100 (getNewGuitarData 480 170 GH_HOPO_Rules FIVE_FRETS) of
     None \<Rightarrow> False
   | Some (nd', gd') \<Rightarrow>
       GetTapNote nd' 2 0 = TAP_ORIGINAL_HOPO \<and> GetTapNote nd' 0 0 = TAP_EMPTY
       \<and> GetTapNote nd' 1 0 = TAP_EMPTY \<and> gd_iLastForcedHOPO gd' = 0"
proof -
  let ?nd = "SetTapNote (SetTapNote emptyNoteData 0 0 TAP_ORIGINAL_GEM) 2 0 TAP_ORIGINAL_GEM"
  let ?gd = "getNewGuitarData 480 170 GH_HOPO_Rules FIVE_FRETS"
  have cols: "gd_iCols ?gd = 6" and res: "gd_iResolution ?gd = 480"
    by (simp_all add: getNewGuitarData_def)
  have row: "BeatToNoteRow 0 480 = 0" by (simp add: BeatToNoteRow_def)
  have marker: "((5::int) = 5 \<and> gd_iCols ?gd = 6) \<or> ((5::int) = 7 \<and> gd_iCols ?gd = 7)"
    by (simp add: cols)
  note th = forced_hopo_marker_chord [where ?col0.0 = 5 and gd = ?gd and btr = BeatToNoteRow
      and nd = ?nd and start = 0 and ?end = 100, OF marker]
  have occ: "(2::nat) < nat 6 \<and> GetTapNote ?nd (int 2) 0 \<noteq> TAP_EMPTY
             \<and> (\<forall>i. 2 < i \<and> i < nat 6 \<longrightarrow> GetTapNote ?nd (int i) 0 = TAP_EMPTY)"
    by (auto simp add: store_defs tap_consts emptyNoteData_def)
  show ?thesis
  proof (cases "addGHRBNote BeatToNoteRow ?nd 5 0 100 ?gd")
    case None
    then show ?thesis using th by simp
  next
    case (Some p)
    obtain nd' gd' where p: "p = (nd', gd')" by (cases p)
    have th': "gd' = ?gd\<lparr>gd_iLastForcedHOPO := 0\<rparr>
             \<and> (\<forall>h. h < nat 6 \<and> GetTapNote ?nd (int h) 0 \<noteq> TAP_EMPTY
                    \<and> (\<forall>i. h < i \<and> i < nat 6 \<longrightarrow> GetTapNote ?nd (int i) 0 = TAP_EMPTY)
                  \<longrightarrow> GetTapNote nd' (int h) 0
                        = categoryEvent 3 0 (0 + iDuration (GetTapNote ?nd (int h) 0))
                      \<and> isHOPO (GetTapNote nd' (int h) 0)
                      \<and> (\<forall>i. i < nat 6 \<and> i \<noteq> h \<longrightarrow> GetTapNote nd' (int i) 0 = TAP_EMPTY))
             \<and> ((\<forall>i. i < nat 6 \<longrightarrow> GetTapNote ?nd (int i) 0 = TAP_EMPTY) \<longrightarrow> nd' = ?nd)"
      using th unfolding Some p option.case prod.case cols res row .
    then have g: "gd' = ?gd\<lparr>gd_iLastForcedHOPO := 0\<rparr>"
      and c: "\<forall>h. h < nat 6 \<and> GetTapNote ?nd (int h) 0 \<noteq> TAP_EMPTY
                    \<and> (\<forall>i. h < i \<and> i < nat 6 \<longrightarrow> GetTapNote ?nd (int i) 0 = TAP_EMPTY)
                  \<longrightarrow> GetTapNote nd' (int h) 0
                        = categoryEvent 3 0 (0 + iDuration (GetTapNote ?nd (int h) 0))
                      \<and> isHOPO (GetTapNote nd' (int h) 0)
                      \<and> (\<forall>i. i < nat 6 \<and> i \<noteq> h \<longrightarrow> GetTapNote nd' (int i) 0 = TAP_EMPTY)"
      by blast+
    from c occ have h2: "GetTapNote nd' (int 2) 0
                       = categoryEvent 3 0 (0 + iDuration (GetTapNote ?nd (int 2) 0))"
      and rest: "\<forall>i. i < nat 6 \<and> i \<noteq> 2 \<longrightarrow> GetTapNote nd' (int i) 0 = TAP_EMPTY"
      by blast+
    have e2: "GetTapNote nd' 2 0 = TAP_ORIGINAL_HOPO"
      using h2 by (simp add: Get_Set categoryEvent_def tap_consts)
    have e0: "GetTapNote nd' 0 0 = TAP_EMPTY" using rest [rule_format, of 0] by simp
    have e1: "GetTapNote nd' 1 0 = TAP_EMPTY" using rest [rule_format, of 1] by simp
    show ?thesis
      using e2 e0 e1 g by (simp add: Some p)
  qed
qed

lemma laneLoop_fst:
  "fst (laneLoop tr m gd ks (b, pt, pm)) =
     (b \<or> (\<exists>k\<in>set ks. m - gd_iPrevNoteMark gd ! k \<le> gd_iHopoResolution gd
                        \<and> tr \<noteq> int k \<and> gd_iPrevNoteMark gd ! k \<noteq> - 1))"
  by (induction ks arbitrary: b pt pm) auto

lemma laneLoop_mark:
  "pm \<le> snd (snd (laneLoop tr m gd ks (b, pt, pm)))
   \<and> (\<forall>k\<in>set ks. gd_iPrevNoteMark gd ! k \<le> snd (snd (laneLoop tr m gd ks (b, pt, pm))))
   \<and> (snd (snd (laneLoop tr m gd ks (b, pt, pm))) = pm
       \<or> (\<exists>k\<in>set ks. snd (snd (laneLoop tr m gd ks (b, pt, pm))) = gd_iPrevNoteMark gd ! k))"
proof (induction ks arbitrary: b pt pm)
  case Nil
  then show ?case by simp
next
  case (Cons k ks)
  show ?case
  proof (cases "gd_iPrevNoteMark gd ! k > pm")
    case True
    then show ?thesis
      using Cons.IH [where b = "if m - gd_iPrevNoteMark gd ! k \<le> gd_iHopoResolution gd
           \<and> tr \<noteq> int k \<and> gd_iPrevNoteMark gd ! k \<noteq> - 1 then True else b" and pt = "int k"
           and pm = "gd_iPrevNoteMark gd ! k"]
      by (force simp del: laneLoop.simps(2) simp add: laneLoop.simps(2) [of tr m gd k ks b pt pm])
  next
    case False
    then show ?thesis
      using Cons.IH [where b = "if m - gd_iPrevNoteMark gd ! k \<le> gd_iHopoResolution gd
           \<and> tr \<noteq> int k \<and> gd_iPrevNoteMark gd ! k \<noteq> - 1 then True else b" and pt = pt
           and pm = pm]
      by (force simp del: laneLoop.simps(2) simp add: laneLoop.simps(2) [of tr m gd k ks b pt pm])
  qed
qed

lemma laneLoop_track:
  "(fst (snd (laneLoop tr m gd ks (b, pt, pm))) = - 1) =
     (pt = - 1 \<and> (\<forall>k\<in>set ks. gd_iPrevNoteMark gd ! k \<le> pm))"
proof (induction ks arbitrary: b pt pm)
  case Nil
  then show ?case by simp
next
  case (Cons k ks)
  show ?case
  proof (cases "gd_iPrevNoteMark gd ! k > pm")
    case True
    then show ?thesis using Cons.IH by auto
  next
    case False
    then show ?thesis using Cons.IH by auto
  qed
qed


text \<open>
  C7. MIDI shared HOPO predicate priority. For every lane of the chart, every tick and
  every classification state whose last-note ticks are \<open>-1\<close> (no note yet) or later,
  \<^verbatim>\<open>checkHOPOConditions\<close> returns strum (false) when the tick equals the last forced-strum
  tick; otherwise HOPO (true) when it equals a recorded last forced-HOPO tick; otherwise
  strum when it equals a recorded last chord tick; otherwise, under the Rock Band rules,
  strum whenever the last-note tick of the current lane equals the maximum last-note tick
  over all lanes; otherwise the result of the lane scan: HOPO exactly when some other lane
  has a last note (a tick other than \<open>-1\<close>) within the HOPO threshold of the tick.
\<close>

theorem checkHOPOConditions_priority:
  assumes "gd_iCols gd = int (length (gd_iPrevNoteMark gd))"
    and "0 \<le> lane" "lane < gd_iCols gd"
    and "\<forall>x\<in>set (gd_iPrevNoteMark gd). - 1 \<le> x"
  shows "checkHOPOConditions lane tick gd =
           (if gd_iLastForcedStrum gd = tick then False
            else if gd_iLastForcedHOPO gd = tick \<and> gd_iLastForcedHOPO gd \<noteq> - 1 then True
            else if gd_iLastChordRow gd = tick \<and> gd_iLastChordRow gd \<noteq> - 1 then False
            else if gd_hopoRules gd = RB_HOPO_Rules
                    \<and> gd_iPrevNoteMark gd ! nat lane = Max (set (gd_iPrevNoteMark gd))
            then False
            else (\<exists>k<length (gd_iPrevNoteMark gd).
                    tick - gd_iPrevNoteMark gd ! k \<le> gd_iHopoResolution gd
                    \<and> lane \<noteq> int k \<and> gd_iPrevNoteMark gd ! k \<noteq> - 1))"
proof -
  define marks where "marks = gd_iPrevNoteMark gd"
  define n where "n = length marks"
  define r where "r = laneLoop lane tick gd [0..<n] (False, - 1, - 1)"
  define b where "b = fst r"
  define pt where "pt = fst (snd r)"
  define pm where "pm = snd (snd r)"
  have rr: "r = (b, pt, pm)" by (simp add: b_def pt_def pm_def)
  have ln: "nat lane < n" "nat (gd_iCols gd) = n"
    using assms(1,2,3) by (simp_all add: n_def marks_def)
  have ge: "\<And>k. k < n \<Longrightarrow> - 1 \<le> marks ! k"
    using assms(4) by (simp add: marks_def n_def)
  have bb: "b = (\<exists>k<n. tick - marks ! k \<le> gd_iHopoResolution gd
                    \<and> lane \<noteq> int k \<and> marks ! k \<noteq> - 1)"
    using laneLoop_fst [of lane tick gd "[0..<n]" False "- 1" "- 1"]
    by (auto simp add: b_def r_def marks_def)
  have mk: "- 1 \<le> pm" "\<forall>k<n. marks ! k \<le> pm" "pm = - 1 \<or> (\<exists>k<n. pm = marks ! k)"
    using laneLoop_mark [of "- 1" lane tick gd "[0..<n]" False "- 1"]
    by (auto simp add: pm_def r_def marks_def)
  have tk: "(pt = - 1) = (\<forall>k<n. marks ! k \<le> - 1)"
    using laneLoop_track [of lane tick gd "[0..<n]" False "- 1" "- 1"]
    by (auto simp add: pt_def r_def marks_def)
  have pm_in: "pm \<in> set marks"
  proof (cases "pm = - 1")
    case True
    then have "marks ! nat lane = - 1" using mk(2) ge ln(1) by fastforce
    then show ?thesis using True ln(1) by (metis n_def nth_mem)
  next
    case False
    then obtain k where "k < n" "pm = marks ! k" using mk(3) by auto
    then show ?thesis by (simp add: n_def)
  qed
  have "\<forall>y\<in>set marks. y \<le> pm"
    using mk(2) by (auto simp add: in_set_conv_nth n_def)
  then have mx: "Max (set marks) = pm"
    using pm_in by (intro Max_eqI) auto
  have code: "checkHOPOConditions lane tick gd =
           (if gd_iLastForcedStrum gd = tick then False
            else if gd_iLastForcedHOPO gd = tick \<and> gd_iLastForcedHOPO gd \<noteq> - 1 then True
            else if gd_iLastChordRow gd = tick \<and> gd_iLastChordRow gd \<noteq> - 1 then False
            else if gd_hopoRules gd = RB_HOPO_Rules \<and> pt \<noteq> - 1
                    \<and> marks ! nat lane \<noteq> - 1 \<and> pm \<noteq> - 1 \<and> marks ! nat lane = pm
            then False else b)"
    using rr by (simp add: checkHOPOConditions_def ln(2) r_def [symmetric] marks_def)
  have rb: "(if gd_hopoRules gd = RB_HOPO_Rules \<and> pt \<noteq> - 1
                    \<and> marks ! nat lane \<noteq> - 1 \<and> pm \<noteq> - 1 \<and> marks ! nat lane = pm
             then False else b)
          = (if gd_hopoRules gd = RB_HOPO_Rules \<and> marks ! nat lane = pm then False else b)"
  proof (cases "marks ! nat lane = pm")
    case False
    then show ?thesis by simp
  next
    case True
    show ?thesis
    proof (cases "pm = - 1")
      case True
      then have "\<forall>k<n. marks ! k = - 1" using mk(2) ge by fastforce
      then have "\<not> b" by (simp add: bb)
      then show ?thesis by simp
    next
      case False
      then have "\<not> marks ! nat lane \<le> - 1" using True ge [OF ln(1)] by simp
      then have "pt \<noteq> - 1" using tk ln(1) by blast
      then show ?thesis using True False by simp
    qed
  qed
  show ?thesis
    unfolding code rb
    by (simp add: mx [unfolded marks_def] bb marks_def n_def)
qed


theorem checkHOPOConditions_priority_witness:
  "checkHOPOConditions 0 100
     ((getNewGuitarData 480 170 RB_HOPO_Rules FIVE_FRETS)
        \<lparr>gd_iPrevNoteMark := [0, 0, - 1, - 1, - 1, - 1]\<rparr>) = False
   \<and> checkHOPOConditions 0 100
     ((getNewGuitarData 480 170 GH_HOPO_Rules FIVE_FRETS)
        \<lparr>gd_iPrevNoteMark := [0, 0, - 1, - 1, - 1, - 1]\<rparr>) = True
   \<and> checkHOPOConditions 0 100
     ((getNewGuitarData 480 170 GH_HOPO_Rules FIVE_FRETS)
        \<lparr>gd_iPrevNoteMark := [0, 0, - 1, - 1, - 1, - 1], gd_iLastForcedStrum := 100,
         gd_iLastForcedHOPO := 100\<rparr>) = False"
proof -
  let ?rb = "(getNewGuitarData 480 170 RB_HOPO_Rules FIVE_FRETS)
        \<lparr>gd_iPrevNoteMark := [0, 0, - 1, - 1, - 1, - 1]\<rparr>"
  let ?gh = "(getNewGuitarData 480 170 GH_HOPO_Rules FIVE_FRETS)
        \<lparr>gd_iPrevNoteMark := [0, 0, - 1, - 1, - 1, - 1]\<rparr>"
  let ?fs = "(getNewGuitarData 480 170 GH_HOPO_Rules FIVE_FRETS)
        \<lparr>gd_iPrevNoteMark := [0, 0, - 1, - 1, - 1, - 1], gd_iLastForcedStrum := 100,
         gd_iLastForcedHOPO := 100\<rparr>"
  have le0: "(0::int) \<le> 0" by simp
  have hrb: "gd_iCols ?rb = int (length (gd_iPrevNoteMark ?rb))" "0 < gd_iCols ?rb"
    "\<forall>x\<in>set (gd_iPrevNoteMark ?rb). - 1 \<le> x"
    by (simp_all add: getNewGuitarData_def)
  have hgh: "gd_iCols ?gh = int (length (gd_iPrevNoteMark ?gh))" "0 < gd_iCols ?gh"
    "\<forall>x\<in>set (gd_iPrevNoteMark ?gh). - 1 \<le> x"
    by (simp_all add: getNewGuitarData_def)
  have hfs: "gd_iCols ?fs = int (length (gd_iPrevNoteMark ?fs))" "0 < gd_iCols ?fs"
    "\<forall>x\<in>set (gd_iPrevNoteMark ?fs). - 1 \<le> x"
    by (simp_all add: getNewGuitarData_def)
  have ex: "\<exists>k<Suc (Suc (Suc (Suc (Suc (Suc 0))))).
               - [0, 0, - 1, - 1, - 1, - 1 :: int] ! k \<le> 70 \<and> 0 < k
               \<and> [0, 0, - 1, - 1, - 1, - 1 :: int] ! k \<noteq> - 1"
    by (rule exI [of _ 1]) simp
  have a: "checkHOPOConditions 0 100 ?rb = False"
    using checkHOPOConditions_priority [OF hrb(1) le0 hrb(2) hrb(3), of 100]
    by (simp add: getNewGuitarData_def)
  have b: "checkHOPOConditions 0 100 ?gh = True"
    using checkHOPOConditions_priority [OF hgh(1) le0 hgh(2) hgh(3), of 100] ex
    by (simp add: getNewGuitarData_def)
  have c: "checkHOPOConditions 0 100 ?fs = False"
    using checkHOPOConditions_priority [OF hfs(1) le0 hfs(2) hfs(3), of 100]
    by (simp add: getNewGuitarData_def)
  show ?thesis using a b c by simp
qed

lemma upt4: "[0..<4] = [0, 1, 2, 3]"
  by (simp add: upt_conv_Cons)

lemma sint_eq_small:
  fixes w :: "8 word"
  shows "(sint w = 80) = (w = 80)" "(sint w = 83) = (w = 83)" "(sint w = 0) = (w = 0)"
proof -
  have e: "\<And>v. (w = v) = (sint w = sint v)"
    by (auto intro: signed_word_eqI)
  show "(sint w = 80) = (w = 80)" by (simp add: e [of 80])
  show "(sint w = 83) = (w = 83)" by (simp add: e [of 83])
  show "(sint w = 0) = (w = 0)" by (simp add: e [of 0])
qed

lemma uint_eq_small:
  fixes w :: "8 word"
  shows "(uint w = 80) = (w = 80)" "(uint w = 83) = (w = 83)" "(uint w = 0) = (w = 0)"
proof -
  have e: "\<And>v. (w = v) = (uint w = uint v)"
    by (rule word_uint_eq_iff)
  show "(uint w = 80) = (w = 80)" by (simp add: e [of 80])
  show "(uint w = 83) = (w = 83)" by (simp add: e [of 83])
  show "(uint w = 0) = (w = 0)" by (simp add: e [of 0])
qed

lemma translateSysex_header_mismatch:
  assumes "4 \<le> length pData" "take 4 pData \<noteq> commHeader"
  shows "translateSysex char_signed pData diff = Some (- 1)"
proof -
  obtain a b c d rest where p: "pData = a # b # c # d # rest"
  proof -
    have "Suc (Suc (Suc (Suc 0))) \<le> length pData" using assms(1) by simp
    then show ?thesis
      using that by (auto simp add: Suc_le_length_iff)
  qed
  have ne: "a \<noteq> 80 \<or> b \<noteq> 83 \<or> c \<noteq> 0 \<or> d \<noteq> 0"
    using assms(2) by (auto simp add: p commHeader_def)
  have "headerLoop char_signed pData [0, 1, 2, 3] = Some False"
    using ne
    by (cases char_signed)
       (auto simp add: p commHeader_def char_val_def sint_eq_small uint_eq_small)
  then show ?thesis by (simp add: translateSysex_def upt4)
qed

lemma sysexFlags_noop: "sysexFlags (- 1) gd = gd"
  by (simp add: sysexFlags_def)

lemma translateSysex_example:
  "translateSysex char_signed [0x50, 0x53, 0x00, 0x00, 0x03, 0x01, 0x55, 0x66]
     Difficulty_Challenge = Some 3"
  by (cases char_signed) (simp_all add: translateSysex_def upt4 commHeader_def char_val_def)


text \<open>
  C9. System-Exclusive payload rejection: where the code departs from it. The payload
  \<open>50 53 00 00 03 01 55 66\<close> has the fixed header and the open-note type of the Expert
  difficulty, and a trailer \<open>55 66\<close> that is neither the "on" pair \<open>01 F7\<close> nor the "off"
  pair \<open>00 F7\<close>. \<^verbatim>\<open>translateSysex\<close> verifies the trailer only when byte 7 is \<open>F7\<close>, so it
  returns 3 and not \<open>-1\<close>, whether \<^verbatim>\<open>char\<close> is signed or not, and the event loop then
  writes a section flag instead of leaving the flags unchanged. (A payload whose first
  four bytes differ from the header does give \<open>-1\<close>, and \<open>-1\<close> leaves both flags as they
  were: \<open>translateSysex_header_mismatch\<close>, \<open>sysexFlags_noop\<close>.)
\<close>

theorem translateSysex_unverified_trailer:
  "translateSysex char_signed [0x50, 0x53, 0x00, 0x00, 0x03, 0x01, 0x55, 0x66]
     Difficulty_Challenge = Some 3
   \<and> midiEvent char_signed btr Difficulty_Challenge low high
        (MidiEventType_SYSEX [0x50, 0x53, 0x00, 0x00, 0x03, 0x01, 0x55, 0x66])
        (nd, notesInProgress, gd)
       = Some (nd, notesInProgress, gd\<lparr>gd_bInTapSection := True\<rparr>)"
  by (simp add: translateSysex_example midiEvent_def sysexFlags_def c_mod_def c_div_def)

theorem translateSysex_unverified_trailer_witness:
  "translateSysex True [0x50, 0x53, 0x00, 0x00, 0x03, 0x01, 0x55, 0x66]
     Difficulty_Challenge = Some 3
   \<and> gd_bInTapSection
        (snd (snd (the (midiEvent True BeatToNoteRow Difficulty_Challenge 96 102
           (MidiEventType_SYSEX [0x50, 0x53, 0x00, 0x00, 0x03, 0x01, 0x55, 0x66])
           (emptyNoteData, replicate 7 None,
            getNewGuitarData 480 170 GH_HOPO_Rules FIVE_FRETS)))))"
  using translateSysex_unverified_trailer [of True BeatToNoteRow 96 102 emptyNoteData
      "replicate 7 None" "getNewGuitarData 480 170 GH_HOPO_Rules FIVE_FRETS"]
  by simp

lemma laneOf_range:
  assumes "playableColumn col0 gd"
  shows "0 \<le> laneOf col0 gd \<and> laneOf col0 gd < gd_iCols gd"
proof -
  from assms consider "gd_iCols gd = 6" "0 \<le> col0" "col0 < 5"
    | "gd_iCols gd = 7" "0 \<le> col0" "col0 < 7"
    by (auto simp add: playableColumn_def)
  then show ?thesis
  proof cases
    case 1
    then show ?thesis by (simp add: laneOf_def)
  next
    case 2
    then show ?thesis by (simp add: laneOf_def)
  qed
qed

lemma addGHRBNote_playable:
  assumes "playableColumn col0 gd"
  shows "addGHRBNote btr nd col0 start end gd =
           addNormalNote nd (rowTaps btr nd start gd)
             (fst (rowScan (rowTaps btr nd start gd) (nat (gd_iCols gd))))
             (snd (rowScan (rowTaps btr nd start gd) (nat (gd_iCols gd))))
             (if gd_iCols gd = 7 \<and> col0 < 7 then col0 - 1 else col0)
             start (btr start (gd_iResolution gd))
             (btr (realEndOf start end gd) (gd_iResolution gd)) gd"
proof -
  from assms consider "gd_iCols gd = 6" "0 \<le> col0" "col0 < 5"
    | "gd_iCols gd = 7" "0 \<le> col0" "col0 < 7"
    by (auto simp add: playableColumn_def)
  then show ?thesis
  proof cases
    case 1
    then show ?thesis by (simp add: addGHRBNote_def Let_def)
  next
    case 2
    then show ?thesis by (simp add: addGHRBNote_def Let_def)
  qed
qed

lemma addNormalNote_tap:
  assumes "gd_bInTapSection gd"
    and "0 \<le> (if gd_bInOpenSection gd \<or> (col = - 1 \<and> gd_iCols gd = 7) then gd_iCols gd - 1 else col)"
    and "(if gd_bInOpenSection gd \<or> (col = - 1 \<and> gd_iCols gd = 7) then gd_iCols gd - 1 else col)
           < gd_iCols gd"
  shows "addNormalNote nd taps isChordRow highestNote col start startRow endRow gd =
           Some (placeNote nd
                   (if gd_bInOpenSection gd \<or> (col = - 1 \<and> gd_iCols gd = 7)
                    then gd_iCols gd - 1 else col) startRow endRow 1,
                 gd\<lparr>gd_iPrevNoteMark := (gd_iPrevNoteMark gd)
                        [nat (if gd_bInOpenSection gd \<or> (col = - 1 \<and> gd_iCols gd = 7)
                              then gd_iCols gd - 1 else col) := start],
                    gd_iPrevNoteTrack :=
                      (if gd_bInOpenSection gd \<or> (col = - 1 \<and> gd_iCols gd = 7)
                       then gd_iCols gd - 1 else col)\<rparr>)"
  using assms unfolding addNormalNote_def Let_def by simp

lemma addNormalNote_event:
  assumes "0 \<le> (if gd_bInOpenSection gd \<or> (col = - 1 \<and> gd_iCols gd = 7) then gd_iCols gd - 1 else col)"
    and "(if gd_bInOpenSection gd \<or> (col = - 1 \<and> gd_iCols gd = 7) then gd_iCols gd - 1 else col)
           < gd_iCols gd"
  shows "case addNormalNote nd taps isChordRow highestNote col start startRow endRow gd of
           None \<Rightarrow> False
         | Some (nd', gd') \<Rightarrow>
             if \<not> gd_bInTapSection gd \<and> isChordRow \<and> start = gd_iLastForcedHOPO gd
                \<and> (if gd_bInOpenSection gd \<or> (col = - 1 \<and> gd_iCols gd = 7)
                    then gd_iCols gd - 1 else col) < highestNote
             then nd' = nd \<and> gd' = gd
             else (\<exists>c\<in>{1, 2, 3}.
                     GetTapNote nd'
                       (if gd_bInOpenSection gd \<or> (col = - 1 \<and> gd_iCols gd = 7)
                        then gd_iCols gd - 1 else col) startRow
                     = categoryEvent c startRow endRow)"
proof -
  define col1 where "col1 = (if gd_bInOpenSection gd \<or> (col = - 1 \<and> gd_iCols gd = 7)
                             then gd_iCols gd - 1 else col)"
  have r: "\<not> (col1 < 0 \<or> gd_iCols gd \<le> col1)"
    using assms by (simp add: col1_def)
  show ?thesis
    unfolding addNormalNote_def Let_def col1_def [symmetric]
    using r by (simp add: Get_placeNote)
qed

lemma laneOf_alt:
  "(if gd_bInOpenSection gd
       \<or> ((if gd_iCols gd = 7 \<and> col0 < 7 then col0 - 1 else col0) = - 1 \<and> gd_iCols gd = 7)
    then gd_iCols gd - 1
    else (if gd_iCols gd = 7 \<and> col0 < 7 then col0 - 1 else col0)) = laneOf col0 gd"
  by (simp add: laneOf_def Let_def)

lemma addGHRBNote_tap:
  assumes "playableColumn col0 gd" "gd_bInTapSection gd"
  shows "addGHRBNote btr nd col0 start end gd =
           Some (placeNote nd (laneOf col0 gd) (btr start (gd_iResolution gd))
                   (btr (realEndOf start end gd) (gd_iResolution gd)) 1,
                 gd\<lparr>gd_iPrevNoteMark := (gd_iPrevNoteMark gd)[nat (laneOf col0 gd) := start],
                    gd_iPrevNoteTrack := laneOf col0 gd\<rparr>)"
proof -
  have r: "0 \<le> laneOf col0 gd" "laneOf col0 gd < gd_iCols gd"
    using laneOf_range [OF assms(1)] by simp_all
  show ?thesis
    unfolding addGHRBNote_playable [OF assms(1)]
    using addNormalNote_tap [OF assms(2),
        of "if gd_iCols gd = 7 \<and> col0 < 7 then col0 - 1 else col0", unfolded laneOf_alt, OF r]
    by simp
qed

lemma addGHRBNote_event:
  assumes "playableColumn col0 gd"
  shows "case addGHRBNote btr nd col0 start end gd of
           None \<Rightarrow> False
         | Some (nd', gd') \<Rightarrow>
             if lowerNoteOfForcedRow btr nd col0 start gd then nd' = nd \<and> gd' = gd
             else (\<exists>c\<in>{1, 2, 3}.
                     GetTapNote nd' (laneOf col0 gd) (btr start (gd_iResolution gd))
                     = categoryEvent c (btr start (gd_iResolution gd))
                         (btr (realEndOf start end gd) (gd_iResolution gd)))"
proof -
  have r: "0 \<le> laneOf col0 gd" "laneOf col0 gd < gd_iCols gd"
    using laneOf_range [OF assms(1)] by simp_all
  show ?thesis
    unfolding addGHRBNote_playable [OF assms(1)] lowerNoteOfForcedRow_def
    using addNormalNote_event [of gd "if gd_iCols gd = 7 \<and> col0 < 7 then col0 - 1 else col0",
        unfolded laneOf_alt, OF r]
    by simp
qed

lemma noteRecord_event:
  assumes "0 \<le> B" "B < 5"
  shows "case noteRecord btr res hr B t len st of
           None \<Rightarrow> False
         | Some st' \<Rightarrow>
             (\<exists>c\<in>{1, 2, 3}. GetTapNote (newNotes st') B (btr t res)
                               = categoryEvent c (btr t res) (btr (t + len) res))"
  using assms(1)
  by (simp add: noteRecord_Some [OF assms] rec_fields emit_notes)

lemma noteRecord_tap:
  assumes "0 \<le> B" "B < 5" "\<bar>iLastTapRow st - t\<bar> \<le> 1" "iLastTapRow st \<noteq> - 1"
  shows "noteRecord btr res hr B t len st =
           Some (recordNote (nat B) t len
                  ((chordBreak btr res (nat B) t (sustainCorrection btr res (nat B) t st))
                     \<lparr>newNotes :=
                        addNote (newNotes (chordBreak btr res (nat B) t
                                   (sustainCorrection btr res (nat B) t st)))
                          B (btr t res) (btr (t + len) res) 1,
                      bPrevNoteHOPO :=
                        (bPrevNoteHOPO (chordBreak btr res (nat B) t
                                   (sustainCorrection btr res (nat B) t st)))[nat B := False]\<rparr>))"
proof -
  have "iLastTapRow (chordBreak btr res (nat B) t (sustainCorrection btr res (nat B) t st))
          = iLastTapRow st"
    by (simp add: chordBreak_def cbf_fields sus_fields)
  then show ?thesis
    using assms by (simp add: noteRecord_Some [OF assms(1,2)] emitNote_def)
qed

lemma realEnd_gap:
  assumes "0 < r" "e - s > c_div r 2"
  shows "48 * s + 2 * r \<le> 48 * (e - c_div r 8)"
proof -
  have d2: "c_div r 2 = r div 2" and d8: "c_div r 8 = r div 8"
    using assms(1) by (simp_all add: c_div_pos)
  have "r \<le> 2 * (r div 2) + 1" by presburger
  moreover have "8 * (r div 8) \<le> r" by presburger
  ultimately show ?thesis using assms by (simp add: d2 d8)
qed

lemma categoryEvent_kind_any:
  "c \<in> {1, 2, 3} \<Longrightarrow>
   isTap (categoryEvent c s e) \<or> isStrum (categoryEvent c s e) \<or> isHOPO (categoryEvent c s e)"
  by (auto simp add: categoryEvent_kinds)

lemma held_text:
  assumes "0 \<le> B" "B < 5"
  shows "case noteRecord btr res hr B t len st of
           None \<Rightarrow> False
         | Some st' \<Rightarrow>
             (let ev = GetTapNote (newNotes st') B (btr t res)
              in (isTap ev \<or> isStrum ev \<or> isHOPO ev)
                 \<and> isHeld ev = (btr t res < btr (t + len) res)
                 \<and> iDuration ev = (if btr t res < btr (t + len) res
                                    then btr (t + len) res - btr t res else 0)
                 \<and> ((\<forall>a b. a \<le> b \<longrightarrow> btr a res \<le> btr b res) \<and> isHeld ev \<longrightarrow> 0 < len))"
proof (cases "noteRecord btr res hr B t len st")
  case None
  then show ?thesis using noteRecord_event [OF assms, where btr = btr and res = res and hr = hr and t = t
        and len = len and st = st] by simp
next
  case (Some st')
  then obtain c where c: "c \<in> {1, 2, 3}"
    and ev: "GetTapNote (newNotes st') B (btr t res)
               = categoryEvent c (btr t res) (btr (t + len) res)"
    using noteRecord_event [OF assms, where btr = btr and res = res and hr = hr and t = t
        and len = len and st = st] by auto
  have m: "(\<forall>a b. a \<le> b \<longrightarrow> btr a res \<le> btr b res)
             \<and> btr t res < btr (t + len) res \<longrightarrow> 0 < len"
  proof (intro impI, elim conjE)
    assume mono: "\<forall>a b. a \<le> b \<longrightarrow> btr a res \<le> btr b res"
      and lt: "btr t res < btr (t + len) res"
    show "0 < len"
    proof (rule ccontr)
      assume "\<not> 0 < len"
      then have "t + len \<le> t" by simp
      then have "btr (t + len) res \<le> btr t res" using mono by blast
      then show False using lt by simp
    qed
  qed
  show ?thesis
    using categoryEvent_kind_any [OF c] categoryEvent_held [OF c] m
    by (simp add: Some ev Let_def categoryEvent_duration)
qed

lemma held_midi:
  assumes "playableColumn col0 gd"
  shows "case addGHRBNote btr nd col0 start end gd of
           None \<Rightarrow> False
         | Some (nd', gd') \<Rightarrow>
             if lowerNoteOfForcedRow btr nd col0 start gd then nd' = nd \<and> gd' = gd
             else
               (let startRow = btr start (gd_iResolution gd);
                    endRow = btr (realEndOf start end gd) (gd_iResolution gd);
                    ev = GetTapNote nd' (laneOf col0 gd) startRow
                in (isTap ev \<or> isStrum ev \<or> isHOPO ev)
                   \<and> isHeld ev = (startRow < endRow)
                   \<and> iDuration ev = (if startRow < endRow then endRow - startRow else 0)
                   \<and> (end - start \<le> c_div (gd_iResolution gd) 2 \<longrightarrow> \<not> isHeld ev)
                   \<and> ((\<forall>a b. 48 * a + 2 * gd_iResolution gd \<le> 48 * b
                              \<longrightarrow> btr a (gd_iResolution gd) < btr b (gd_iResolution gd))
                        \<and> 0 < gd_iResolution gd \<and> end - start > c_div (gd_iResolution gd) 2
                        \<longrightarrow> isHeld ev))"
proof (cases "addGHRBNote btr nd col0 start end gd")
  case None
  then show ?thesis using addGHRBNote_event [OF assms, where btr = btr and nd = nd and start = start
          and ?end = "end"] by simp
next
  case (Some p)
  obtain nd' gd' where p: "p = (nd', gd')" by (cases p)
  show ?thesis
  proof (cases "lowerNoteOfForcedRow btr nd col0 start gd")
    case True
    then show ?thesis
      using addGHRBNote_event [OF assms, where btr = btr and nd = nd and start = start
          and ?end = "end"] by (simp add: Some p)
  next
    case False
    define startRow where "startRow = btr start (gd_iResolution gd)"
    define endRow where "endRow = btr (realEndOf start end gd) (gd_iResolution gd)"
    obtain c where c: "c \<in> {1, 2, 3}"
      and ev: "GetTapNote nd' (laneOf col0 gd) startRow = categoryEvent c startRow endRow"
      using addGHRBNote_event [OF assms, where btr = btr and nd = nd and start = start
          and ?end = "end"] False
      by (auto simp add: Some p startRow_def endRow_def)
    have short: "end - start \<le> c_div (gd_iResolution gd) 2 \<longrightarrow> \<not> startRow < endRow"
      by (simp add: startRow_def endRow_def realEndOf_def)
    have long: "(\<forall>a b. 48 * a + 2 * gd_iResolution gd \<le> 48 * b
                              \<longrightarrow> btr a (gd_iResolution gd) < btr b (gd_iResolution gd))
                        \<and> 0 < gd_iResolution gd \<and> end - start > c_div (gd_iResolution gd) 2
                        \<longrightarrow> startRow < endRow"
    proof (intro impI, elim conjE)
      assume sep: "\<forall>a b. 48 * a + 2 * gd_iResolution gd \<le> 48 * b
                              \<longrightarrow> btr a (gd_iResolution gd) < btr b (gd_iResolution gd)"
        and pos: "0 < gd_iResolution gd" and gap: "end - start > c_div (gd_iResolution gd) 2"
      have "48 * start + 2 * gd_iResolution gd \<le> 48 * (end - c_div (gd_iResolution gd) 8)"
        by (rule realEnd_gap [OF pos gap])
      then have "btr start (gd_iResolution gd)
                   < btr (end - c_div (gd_iResolution gd) 8) (gd_iResolution gd)"
        using sep by blast
      then show "startRow < endRow"
        using gap by (simp add: startRow_def endRow_def realEndOf_def)
    qed
    have L: "(let ev = GetTapNote nd' (laneOf col0 gd) startRow
                in (isTap ev \<or> isStrum ev \<or> isHOPO ev)
                   \<and> isHeld ev = (startRow < endRow)
                   \<and> iDuration ev = (if startRow < endRow then endRow - startRow else 0)
                   \<and> (end - start \<le> c_div (gd_iResolution gd) 2 \<longrightarrow> \<not> isHeld ev)
                   \<and> ((\<forall>a b. 48 * a + 2 * gd_iResolution gd \<le> 48 * b
                              \<longrightarrow> btr a (gd_iResolution gd) < btr b (gd_iResolution gd))
                        \<and> 0 < gd_iResolution gd \<and> end - start > c_div (gd_iResolution gd) 2
                        \<longrightarrow> isHeld ev))"
      using categoryEvent_kind_any [OF c] categoryEvent_held [OF c] short long
      by (simp add: ev Let_def categoryEvent_duration)
    show ?thesis
      unfolding Some p option.case prod.case Let_def if_not_P [OF False]
      by (rule L [unfolded Let_def startRow_def endRow_def])
  qed
qed

text \<open>
  C2. Held-variant thresholds, as amended. Text engine: every note record on a playable
  track is emitted as a tap, strum or HOPO event at its start row, and the event is the
  held variant exactly when its end row (the row of \<open>tick + length\<close>) is strictly greater
  than its start row (the row of \<open>tick\<close>), with the difference of the rows as duration; for
  a monotone tick-to-row conversion a held event needs \<open>length > 0\<close>, but \<open>length > 0\<close>
  alone does not make the event held. MIDI engine: every candidate on a playable column is
  either dropped as the lower note of a forced row, or emitted at its start row, held
  exactly when the row of its real end is strictly greater than its start row; the real
  end is the start when \<open>end - start \<le> resolution/2\<close>, so such a note is never held, and
  is \<open>end - resolution/8\<close> otherwise, so that the note is held for every conversion that
  separates ticks at least two rows apart (48 rows per beat).
\<close>

theorem held_variant_thresholds:
  "(0 \<le> B \<and> B < 5 \<longrightarrow>
      (case noteRecord btr res hr B t len st of
         None \<Rightarrow> False
       | Some st' \<Rightarrow>
           (let ev = GetTapNote (newNotes st') B (btr t res)
            in (isTap ev \<or> isStrum ev \<or> isHOPO ev)
               \<and> isHeld ev = (btr t res < btr (t + len) res)
               \<and> iDuration ev = (if btr t res < btr (t + len) res
                                  then btr (t + len) res - btr t res else 0)
               \<and> ((\<forall>a b. a \<le> b \<longrightarrow> btr a res \<le> btr b res) \<and> isHeld ev \<longrightarrow> 0 < len))))
   \<and> (playableColumn col0 gd \<longrightarrow>
      (case addGHRBNote btr nd col0 start end gd of
         None \<Rightarrow> False
       | Some (nd', gd') \<Rightarrow>
           if lowerNoteOfForcedRow btr nd col0 start gd then nd' = nd \<and> gd' = gd
           else
             (let startRow = btr start (gd_iResolution gd);
                  endRow = btr (realEndOf start end gd) (gd_iResolution gd);
                  ev = GetTapNote nd' (laneOf col0 gd) startRow
              in (isTap ev \<or> isStrum ev \<or> isHOPO ev)
                 \<and> isHeld ev = (startRow < endRow)
                 \<and> iDuration ev = (if startRow < endRow then endRow - startRow else 0)
                 \<and> (end - start \<le> c_div (gd_iResolution gd) 2 \<longrightarrow> \<not> isHeld ev)
                 \<and> ((\<forall>a b. 48 * a + 2 * gd_iResolution gd \<le> 48 * b
                            \<longrightarrow> btr a (gd_iResolution gd) < btr b (gd_iResolution gd))
                      \<and> 0 < gd_iResolution gd \<and> end - start > c_div (gd_iResolution gd) 2
                      \<longrightarrow> isHeld ev))))"
proof (intro conjI impI)
  assume "0 \<le> B \<and> B < 5"
  then show "case noteRecord btr res hr B t len st of
         None \<Rightarrow> False
       | Some st' \<Rightarrow>
           (let ev = GetTapNote (newNotes st') B (btr t res)
            in (isTap ev \<or> isStrum ev \<or> isHOPO ev)
               \<and> isHeld ev = (btr t res < btr (t + len) res)
               \<and> iDuration ev = (if btr t res < btr (t + len) res
                                  then btr (t + len) res - btr t res else 0)
               \<and> ((\<forall>a b. a \<le> b \<longrightarrow> btr a res \<le> btr b res) \<and> isHeld ev \<longrightarrow> 0 < len))"
    using held_text [where B = B and btr = btr and res = res and hr = hr and t = t
        and len = len and st = st] by blast
next
  assume "playableColumn col0 gd"
  then show "case addGHRBNote btr nd col0 start end gd of
         None \<Rightarrow> False
       | Some (nd', gd') \<Rightarrow>
           if lowerNoteOfForcedRow btr nd col0 start gd then nd' = nd \<and> gd' = gd
           else
             (let startRow = btr start (gd_iResolution gd);
                  endRow = btr (realEndOf start end gd) (gd_iResolution gd);
                  ev = GetTapNote nd' (laneOf col0 gd) startRow
              in (isTap ev \<or> isStrum ev \<or> isHOPO ev)
                 \<and> isHeld ev = (startRow < endRow)
                 \<and> iDuration ev = (if startRow < endRow then endRow - startRow else 0)
                 \<and> (end - start \<le> c_div (gd_iResolution gd) 2 \<longrightarrow> \<not> isHeld ev)
                 \<and> ((\<forall>a b. 48 * a + 2 * gd_iResolution gd \<le> 48 * b
                            \<longrightarrow> btr a (gd_iResolution gd) < btr b (gd_iResolution gd))
                      \<and> 0 < gd_iResolution gd \<and> end - start > c_div (gd_iResolution gd) 2
                      \<longrightarrow> isHeld ev))"
    by (rule held_midi)
qed

lemma first_note_eval:
  assumes "BeatToNoteRow 0 res = 0"
  shows "noteRecord BeatToNoteRow res hr 0 0 len initChartState =
     Some (initChartState
             \<lparr>newNotes := addNote emptyNoteData 0 0 (BeatToNoteRow len res) 2,
              iPrevNoteMark := [0, - 1, - 1, - 1, - 1], iPrevNoteTrack := 0,
              iPrevNoteLength := [len, - 1, - 1, - 1, - 1]\<rparr>)"
proof -
  have s1: "sustainCorrection BeatToNoteRow res 0 0 initChartState = initChartState"
    by (simp add: sustainCorrection_def init_eval)
  have s2: "chordBreak BeatToNoteRow res 0 0 initChartState = initChartState"
    by (simp add: chordBreak_def chordBreakStep_def init_eval upt5)
  have d: "hopoDecision hr 0 0 initChartState = False"
    by (simp add: hopoDecision_def hopoScan_def init_eval upt5)
  have s3: "emitNote BeatToNoteRow res hr 0 0 len initChartState =
              initChartState\<lparr>newNotes := addNote emptyNoteData 0 0 (BeatToNoteRow len res) 2\<rparr>"
    by (simp add: emitNote_def d assms) (simp add: init_eval)
  show ?thesis
    by (simp add: noteRecord_def s1 s2 s3 recordNote_def) (simp add: init_eval)
qed

lemma words_0N01: "getLineWords ''0 = N 0 1'' = [''0'', ''='', ''N'', ''0'', ''1'']"
  by code_simp

theorem held_variant_thresholds_witness:
  "(case noteRecord BeatToNoteRow 192 48 0 0 192 initChartState of
      None \<Rightarrow> False
    | Some st' \<Rightarrow>
        isHeld (GetTapNote (newNotes st') 0 0) \<and> iDuration (GetTapNote (newNotes st') 0 0) = 48)
   \<and> (case addGHRBNote BeatToNoteRow emptyNoteData 0 0 480
             (getNewGuitarData 480 170 GH_HOPO_Rules FIVE_FRETS) of
        None \<Rightarrow> False
      | Some (nd', gd') \<Rightarrow>
          isHeld (GetTapNote nd' 0 0) \<and> iDuration (GetTapNote nd' 0 0) = 42)
   \<and> (case addGHRBNote BeatToNoteRow emptyNoteData 0 0 240
             (getNewGuitarData 480 170 GH_HOPO_Rules FIVE_FRETS) of
        None \<Rightarrow> False
      | Some (nd', gd') \<Rightarrow> \<not> isHeld (GetTapNote nd' 0 0))"
proof -
  let ?gd = "getNewGuitarData 480 170 GH_HOPO_Rules FIVE_FRETS"
  have A: "0 \<le> (0::int) \<and> (0::int) < 5" by simp
  have P: "playableColumn 0 ?gd"
    by (simp add: playableColumn_def getNewGuitarData_def)
  have nl: "\<not> lowerNoteOfForcedRow BeatToNoteRow emptyNoteData 0 0 ?gd"
    by (simp add: lowerNoteOfForcedRow_def getNewGuitarData_def)
  have sep: "\<forall>a b. 48 * a + 2 * 480 \<le> 48 * b \<longrightarrow> BeatToNoteRow a 480 < BeatToNoteRow b 480"
    by (simp add: BeatToNoteRow_strict)
  have gdf: "gd_iResolution ?gd = 480" "laneOf 0 ?gd = 0"
    by (simp_all add: getNewGuitarData_def laneOf_def)
  have re: "realEndOf 0 480 ?gd = 420" "realEndOf 0 240 ?gd = 0"
    by (simp_all add: realEndOf_def getNewGuitarData_def c_div_def)
  have cd: "c_div 480 2 = 240" by (simp add: c_div_def)
  have rows: "BeatToNoteRow 0 192 = 0" "BeatToNoteRow 192 192 = 48" "BeatToNoteRow 0 480 = 0"
    "BeatToNoteRow 420 480 = 42"
    by (simp_all add: BeatToNoteRow_def)
  have ta: "case noteRecord BeatToNoteRow 192 48 0 0 192 initChartState of
      None \<Rightarrow> False
    | Some st' \<Rightarrow>
        isHeld (GetTapNote (newNotes st') 0 0) \<and> iDuration (GetTapNote (newNotes st') 0 0) = 48"
    using held_variant_thresholds [where B = 0 and btr = BeatToNoteRow and res = 192
        and hr = 48 and t = 0 and len = 192 and st = initChartState,
        THEN conjunct1, rule_format, OF A]
    by (cases "noteRecord BeatToNoteRow 192 48 0 0 192 initChartState")
       (simp_all add: Let_def rows)
  have tb: "case addGHRBNote BeatToNoteRow emptyNoteData 0 0 480 ?gd of
        None \<Rightarrow> False
      | Some (nd', gd') \<Rightarrow>
          isHeld (GetTapNote nd' 0 0) \<and> iDuration (GetTapNote nd' 0 0) = 42"
    using held_variant_thresholds [where btr = BeatToNoteRow and ?col0.0 = 0 and gd = ?gd
        and nd = emptyNoteData and start = 0 and ?end = 480,
        THEN conjunct2, rule_format, OF P] nl sep
    by (cases "addGHRBNote BeatToNoteRow emptyNoteData 0 0 480 ?gd")
       (auto simp add: Let_def rows gdf re cd)
  have tc: "case addGHRBNote BeatToNoteRow emptyNoteData 0 0 240 ?gd of
        None \<Rightarrow> False
      | Some (nd', gd') \<Rightarrow> \<not> isHeld (GetTapNote nd' 0 0)"
    using held_variant_thresholds [where btr = BeatToNoteRow and ?col0.0 = 0 and gd = ?gd
        and nd = emptyNoteData and start = 0 and ?end = 240,
        THEN conjunct2, rule_format, OF P] nl
    by (cases "addGHRBNote BeatToNoteRow emptyNoteData 0 0 240 ?gd")
       (auto simp add: Let_def rows gdf re cd)
  show ?thesis using ta tb tc by blast
qed

theorem held_variant_thresholds_counterexample:
  "parseNoteSection BeatToNoteRow [''0 = N 0 1''] 192 48
     = Some (SetTapNote emptyNoteData 0 0 TAP_ORIGINAL_GEM)
   \<and> (0::int) < 1
   \<and> BeatToNoteRow 0 192 = 0 \<and> BeatToNoteRow (0 + 1) 192 = 0
   \<and> GetTapNote (SetTapNote emptyNoteData 0 0 TAP_ORIGINAL_GEM) 0 0 = TAP_ORIGINAL_GEM
   \<and> \<not> isHeld TAP_ORIGINAL_GEM"
proof -
  have rows: "BeatToNoteRow 0 192 = 0" "BeatToNoteRow 1 192 = 0"
    by (simp_all add: BeatToNoteRow_def)
  have av: "atoi ''0'' = 0" "atoi ''1'' = 1" by code_simp+
  have "parseNoteSection BeatToNoteRow [''0 = N 0 1''] 192 48
     = Some (SetTapNote emptyNoteData 0 0 TAP_ORIGINAL_GEM)"
    by (simp add: parseNoteSection_def words_0N01 parseNoteLine_def av
          first_note_eval [OF rows(1)] rows addNote_def)
  then show ?thesis
    by (simp add: rows Get_Set isHeld_def tap_consts)
qed

text \<open>
  C5. Tap-override dominance, as amended. Text engine: every note record on a playable
  track whose tick lies within 1 of a recorded last tap-override tick is emitted as a Tap,
  the held Tap exactly when its end row exceeds its start row; the HOPO flag of its track
  is set false; and the record is processed without the HOPO decision: the emission is the
  tap emission whatever the HOPO threshold, the chord state and the last forced tick are.
  MIDI engine: every candidate on a playable column that arrives while the tap-section
  flag is set is placed as a Tap (held per the held computation) without the HOPO
  predicate, whatever the row already holds and whatever the forced ticks are. In both
  engines the event emitted for the note is neither a HOPO nor a strum.
\<close>

theorem tap_override_dominance:
  "(0 \<le> B \<and> B < 5 \<and> length (bPrevNoteHOPO st) = 5
      \<and> \<bar>iLastTapRow st - t\<bar> \<le> 1 \<and> iLastTapRow st \<noteq> - 1 \<longrightarrow>
      noteRecord btr res hr B t len st =
        Some (recordNote (nat B) t len
               ((chordBreak btr res (nat B) t (sustainCorrection btr res (nat B) t st))
                  \<lparr>newNotes :=
                     addNote (newNotes (chordBreak btr res (nat B) t
                                (sustainCorrection btr res (nat B) t st)))
                       B (btr t res) (btr (t + len) res) 1,
                   bPrevNoteHOPO :=
                     (bPrevNoteHOPO (chordBreak btr res (nat B) t
                                (sustainCorrection btr res (nat B) t st)))[nat B := False]\<rparr>))
      \<and> (case noteRecord btr res hr B t len st of
            None \<Rightarrow> False
          | Some st' \<Rightarrow>
              (let ev = GetTapNote (newNotes st') B (btr t res)
               in ev = categoryEvent 1 (btr t res) (btr (t + len) res)
                  \<and> isTap ev \<and> \<not> isHOPO ev \<and> \<not> isStrum ev
                  \<and> isHeld ev = (btr t res < btr (t + len) res)
                  \<and> bPrevNoteHOPO st' ! nat B = False)))
   \<and> (playableColumn col0 gd \<and> gd_bInTapSection gd \<longrightarrow>
        addGHRBNote btr nd col0 start end gd =
          Some (placeNote nd (laneOf col0 gd) (btr start (gd_iResolution gd))
                  (btr (realEndOf start end gd) (gd_iResolution gd)) 1,
                gd\<lparr>gd_iPrevNoteMark := (gd_iPrevNoteMark gd)[nat (laneOf col0 gd) := start],
                   gd_iPrevNoteTrack := laneOf col0 gd\<rparr>)
        \<and> (let startRow = btr start (gd_iResolution gd);
                endRow = btr (realEndOf start end gd) (gd_iResolution gd);
                ev = GetTapNote (placeNote nd (laneOf col0 gd) startRow endRow 1)
                       (laneOf col0 gd) startRow
            in ev = categoryEvent 1 startRow endRow
               \<and> isTap ev \<and> \<not> isHOPO ev \<and> \<not> isStrum ev
               \<and> isHeld ev = (startRow < endRow)))"
proof (intro conjI impI)
  assume h: "0 \<le> B \<and> B < 5 \<and> length (bPrevNoteHOPO st) = 5
      \<and> \<bar>iLastTapRow st - t\<bar> \<le> 1 \<and> iLastTapRow st \<noteq> - 1"
  define s2 where "s2 = chordBreak btr res (nat B) t (sustainCorrection btr res (nat B) t st)"
  have B: "0 \<le> B" "B < 5" using h by simp_all
  have eq: "noteRecord btr res hr B t len st =
        Some (recordNote (nat B) t len
               (s2\<lparr>newNotes := addNote (newNotes s2) B (btr t res) (btr (t + len) res) 1,
                   bPrevNoteHOPO := (bPrevNoteHOPO s2)[nat B := False]\<rparr>))"
    unfolding s2_def
    using noteRecord_tap [where B = B and st = st and t = t and btr = btr and res = res
        and hr = hr and len = len] h
    by blast
  show "noteRecord btr res hr B t len st =
        Some (recordNote (nat B) t len
               ((chordBreak btr res (nat B) t (sustainCorrection btr res (nat B) t st))
                  \<lparr>newNotes :=
                     addNote (newNotes (chordBreak btr res (nat B) t
                                (sustainCorrection btr res (nat B) t st)))
                       B (btr t res) (btr (t + len) res) 1,
                   bPrevNoteHOPO :=
                     (bPrevNoteHOPO (chordBreak btr res (nat B) t
                                (sustainCorrection btr res (nat B) t st)))[nat B := False]\<rparr>))"
    using eq unfolding s2_def .
  have l2: "nat B < length (bPrevNoteHOPO s2)"
    using h by (auto simp add: s2_def chordBreak_def cbf_fields sus_fields)
  have one: "(1::int) \<in> {1, 2, 3}" by simp
  show "case noteRecord btr res hr B t len st of
            None \<Rightarrow> False
          | Some st' \<Rightarrow>
              (let ev = GetTapNote (newNotes st') B (btr t res)
               in ev = categoryEvent 1 (btr t res) (btr (t + len) res)
                  \<and> isTap ev \<and> \<not> isHOPO ev \<and> \<not> isStrum ev
                  \<and> isHeld ev = (btr t res < btr (t + len) res)
                  \<and> bPrevNoteHOPO st' ! nat B = False)"
    using l2 categoryEvent_held [OF one]
    by (simp add: eq rec_fields Get_addNote Let_def categoryEvent_kinds)
next
  assume h: "playableColumn col0 gd \<and> gd_bInTapSection gd"
  show "addGHRBNote btr nd col0 start end gd =
          Some (placeNote nd (laneOf col0 gd) (btr start (gd_iResolution gd))
                  (btr (realEndOf start end gd) (gd_iResolution gd)) 1,
                gd\<lparr>gd_iPrevNoteMark := (gd_iPrevNoteMark gd)[nat (laneOf col0 gd) := start],
                   gd_iPrevNoteTrack := laneOf col0 gd\<rparr>)"
    using addGHRBNote_tap [where ?col0.0 = col0 and gd = gd and btr = btr and nd = nd
        and start = start and ?end = "end"] h
    by blast
  have one: "(1::int) \<in> {1, 2, 3}" by simp
  show "let startRow = btr start (gd_iResolution gd);
            endRow = btr (realEndOf start end gd) (gd_iResolution gd);
            ev = GetTapNote (placeNote nd (laneOf col0 gd) startRow endRow 1)
                   (laneOf col0 gd) startRow
        in ev = categoryEvent 1 startRow endRow
           \<and> isTap ev \<and> \<not> isHOPO ev \<and> \<not> isStrum ev
           \<and> isHeld ev = (startRow < endRow)"
    using categoryEvent_held [OF one]
    by (simp add: Let_def Get_placeNote categoryEvent_kinds)
qed


theorem tap_override_dominance_witness:
  "(case noteRecord BeatToNoteRow 192 48 0 0 192
           (initChartState\<lparr>iLastForcedRow := 0, iLastTapRow := 0\<rparr>) of
      None \<Rightarrow> False
    | Some st' \<Rightarrow>
        isTap (GetTapNote (newNotes st') 0 0) \<and> isHeld (GetTapNote (newNotes st') 0 0)
        \<and> \<not> isHOPO (GetTapNote (newNotes st') 0 0) \<and> bPrevNoteHOPO st' ! 0 = False)
   \<and> (case addGHRBNote BeatToNoteRow (SetTapNote emptyNoteData 1 0 TAP_ORIGINAL_GEM) 0 0 480
             ((getNewGuitarData 480 170 RB_HOPO_Rules FIVE_FRETS)
                \<lparr>gd_iLastForcedHOPO := 0, gd_bInTapSection := True\<rparr>) of
        None \<Rightarrow> False
      | Some (nd', gd') \<Rightarrow>
          GetTapNote nd' 0 0 = TAP_ORIGINAL_HOLD_HEAD\<lparr>iDuration := 42\<rparr>
          \<and> isTap (GetTapNote nd' 0 0))"
proof -
  let ?st = "initChartState\<lparr>iLastForcedRow := 0, iLastTapRow := 0\<rparr>"
  let ?gd = "(getNewGuitarData 480 170 RB_HOPO_Rules FIVE_FRETS)
                \<lparr>gd_iLastForcedHOPO := 0, gd_bInTapSection := True\<rparr>"
  let ?nd = "SetTapNote emptyNoteData 1 0 TAP_ORIGINAL_GEM"
  have A: "0 \<le> (0::int) \<and> (0::int) < 5 \<and> length (bPrevNoteHOPO ?st) = 5
      \<and> \<bar>iLastTapRow ?st - 0\<bar> \<le> 1 \<and> iLastTapRow ?st \<noteq> - 1"
    by (simp add: initChartState_def)
  have P: "playableColumn 0 ?gd \<and> gd_bInTapSection ?gd"
    by (simp add: playableColumn_def getNewGuitarData_def)
  have rows: "BeatToNoteRow 0 192 = 0" "BeatToNoteRow 192 192 = 48" "BeatToNoteRow 0 480 = 0"
    "BeatToNoteRow 420 480 = 42"
    by (simp_all add: BeatToNoteRow_def)
  have gdf: "gd_iResolution ?gd = 480" "laneOf 0 ?gd = 0" "realEndOf 0 480 ?gd = 420"
    by (simp_all add: getNewGuitarData_def laneOf_def realEndOf_def c_div_def)
  have ta: "case noteRecord BeatToNoteRow 192 48 0 0 192 ?st of
      None \<Rightarrow> False
    | Some st' \<Rightarrow>
        isTap (GetTapNote (newNotes st') 0 0) \<and> isHeld (GetTapNote (newNotes st') 0 0)
        \<and> \<not> isHOPO (GetTapNote (newNotes st') 0 0) \<and> bPrevNoteHOPO st' ! 0 = False"
    using tap_override_dominance [where B = 0 and st = ?st and t = 0 and btr = BeatToNoteRow
        and res = 192 and hr = 48 and len = 192, THEN conjunct1, rule_format, OF A,
        THEN conjunct2]
    by (cases "noteRecord BeatToNoteRow 192 48 0 0 192 ?st")
       (auto simp add: Let_def rows)
  have tb: "case addGHRBNote BeatToNoteRow ?nd 0 0 480 ?gd of
        None \<Rightarrow> False
      | Some (nd', gd') \<Rightarrow>
          GetTapNote nd' 0 0 = TAP_ORIGINAL_HOLD_HEAD\<lparr>iDuration := 42\<rparr>
          \<and> isTap (GetTapNote nd' 0 0)"
    using tap_override_dominance [where btr = BeatToNoteRow and ?col0.0 = 0 and gd = ?gd
        and nd = ?nd and start = 0 and ?end = 480, THEN conjunct2, rule_format, OF P]
    by (auto simp add: Let_def rows gdf) (simp add: categoryEvent_def)
  show ?thesis using ta tb by blast
qed

lemma upt6: "[0..<6] = [0, 1, 2, 3, 4, 5]"
  by (simp add: upt_conv_Cons)

theorem tap_override_dominance_counterexample:
  "noteRecord BeatToNoteRow 192 48 0 0 1 (initChartState\<lparr>iLastTapRow := 0\<rparr>)
     = Some (initChartState
               \<lparr>iLastTapRow := 0,
                newNotes := SetTapNote emptyNoteData 0 0 TAP_ORIGINAL_TAP,
                iPrevNoteMark := [0, - 1, - 1, - 1, - 1], iPrevNoteTrack := 0,
                iPrevNoteLength := [1, - 1, - 1, - 1, - 1]\<rparr>)
   \<and> (0::int) < 1 \<and> \<not> isHeld TAP_ORIGINAL_TAP
   \<and> addGHRBNote BeatToNoteRow (SetTapNote emptyNoteData 0 0 TAP_ORIGINAL_TAP) 5 0 480
        ((getNewGuitarData 480 170 GH_HOPO_Rules FIVE_FRETS)\<lparr>gd_bInTapSection := True\<rparr>)
       = Some (SetTapNote (SetTapNote emptyNoteData 0 0 TAP_ORIGINAL_TAP) 0 0 TAP_ORIGINAL_HOPO,
               (getNewGuitarData 480 170 GH_HOPO_Rules FIVE_FRETS)
                 \<lparr>gd_bInTapSection := True, gd_iLastForcedHOPO := 0\<rparr>)
   \<and> gd_bInTapSection
        ((getNewGuitarData 480 170 GH_HOPO_Rules FIVE_FRETS)\<lparr>gd_bInTapSection := True\<rparr>)
   \<and> GetTapNote
        (SetTapNote (SetTapNote emptyNoteData 0 0 TAP_ORIGINAL_TAP) 0 0 TAP_ORIGINAL_HOPO) 0 0
       = TAP_ORIGINAL_HOPO
   \<and> isHOPO TAP_ORIGINAL_HOPO \<and> \<not> isTap TAP_ORIGINAL_HOPO
   \<and> GetTapNote
        (SetTapNote (SetTapNote emptyNoteData 0 0 TAP_ORIGINAL_TAP) 0 0 TAP_ORIGINAL_HOPO) 5 0
       = TAP_EMPTY"
proof -
  let ?st = "initChartState\<lparr>iLastTapRow := 0\<rparr>"
  let ?gd = "(getNewGuitarData 480 170 GH_HOPO_Rules FIVE_FRETS)\<lparr>gd_bInTapSection := True\<rparr>"
  let ?nd = "SetTapNote emptyNoteData 0 0 TAP_ORIGINAL_TAP"
  have rows: "BeatToNoteRow 0 192 = 0" "BeatToNoteRow 1 192 = 0" "BeatToNoteRow 0 480 = 0"
    by (simp_all add: BeatToNoteRow_def)
  have s1: "sustainCorrection BeatToNoteRow 192 0 0 ?st = ?st"
    by (simp add: sustainCorrection_def init_eval)
  have s2: "chordBreak BeatToNoteRow 192 0 0 ?st = ?st"
    by (simp add: chordBreak_def chordBreakStep_def init_eval upt5)
  have a: "noteRecord BeatToNoteRow 192 48 0 0 1 ?st
     = Some (initChartState
               \<lparr>iLastTapRow := 0,
                newNotes := SetTapNote emptyNoteData 0 0 TAP_ORIGINAL_TAP,
                iPrevNoteMark := [0, - 1, - 1, - 1, - 1], iPrevNoteTrack := 0,
                iPrevNoteLength := [1, - 1, - 1, - 1, - 1]\<rparr>)"
    by (simp add: noteRecord_def s1 s2 emitNote_def rows addNote_def recordNote_def)
       (simp add: init_eval)
  have m: "(5 = (5::int) \<and> gd_iCols ?gd = 6) \<or> (5 = (7::int) \<and> gd_iCols ?gd = 7)"
    by (simp add: getNewGuitarData_def)
  have gdf: "gd_iCols ?gd = 6" "gd_iResolution ?gd = 480"
    by (simp_all add: getNewGuitarData_def)
  have taps: "rowTaps BeatToNoteRow ?nd 0 ?gd
                = [TAP_ORIGINAL_TAP, TAP_EMPTY, TAP_EMPTY, TAP_EMPTY, TAP_EMPTY, TAP_EMPTY]"
    by (simp add: rowTaps_def gdf rows upt6 Get_Set) (simp add: GetTapNote_def emptyNoteData_def)
  have ne: "TAP_ORIGINAL_TAP \<noteq> TAP_EMPTY" by (simp add: tap_consts)
  have scan: "fst (rowScan [TAP_ORIGINAL_TAP, TAP_EMPTY, TAP_EMPTY, TAP_EMPTY, TAP_EMPTY, TAP_EMPTY] 6)"
    by (simp add: rowScan_def upt6 rowScanStep_def ne)
  have loop: "forcedHopoLoop [TAP_ORIGINAL_TAP, TAP_EMPTY, TAP_EMPTY, TAP_EMPTY, TAP_EMPTY, TAP_EMPTY]
                0 [5, 4, 3, 2, 1, 0] False ?nd
              = SetTapNote ?nd 0 0 TAP_ORIGINAL_HOPO"
    by (simp add: ne placeNote_def) (simp add: tap_consts)
  have b: "addGHRBNote BeatToNoteRow ?nd 5 0 480 ?gd
       = Some (SetTapNote ?nd 0 0 TAP_ORIGINAL_HOPO, ?gd\<lparr>gd_iLastForcedHOPO := 0\<rparr>)"
    using addGHRBNote_forced_hopo_marker [OF m, where btr = BeatToNoteRow and nd = ?nd
        and start = 0 and ?end = 480]
    by (simp add: taps gdf rows scan upt6 ne placeNote_def) (simp add: tap_consts)
  have c: "GetTapNote (SetTapNote ?nd 0 0 TAP_ORIGINAL_HOPO) 5 0 = TAP_EMPTY"
    by (simp add: Get_Set) (simp add: GetTapNote_def emptyNoteData_def)
  show ?thesis
    using a b c
    by (simp add: Get_Set isHeld_def isHOPO_def isTap_def tap_consts getNewGuitarData_def)
qed

end
